theory Spec2Isabelle
  imports Main "HOL-Library.Char_ord" "HOL-Library.List_Lexorder" "HOL-Library.Word"
begin

section \<open>Go standard library functions the client calls\<close>

text \<open>
  Go strings are byte sequences; \<open>string\<close> (a list of 8-bit characters) holds them byte
  for byte. The order on strings is the byte-wise lexicographic order, as Go's \<open><\<close> on
  strings.
\<close>

subsection \<open>strings.TrimSpace\<close>

text \<open>
  \<open>strings.TrimSpace\<close> removes leading, then trailing, white space as defined by
  \<open>unicode.IsSpace\<close>. On a UTF-8 byte string a white-space rune is one of the byte sequences
  below: the six ASCII ones, U+0085, U+00A0, U+1680, U+2000 to U+200A, U+2028, U+2029, U+202F,
  U+205F and U+3000.
\<close>

definition spaceSeqs :: "string list" where
  "spaceSeqs =
     [[CHR 0x09], [CHR 0x0A], [CHR 0x0B], [CHR 0x0C], [CHR 0x0D], [CHR 0x20],
      [CHR 0xC2, CHR 0x85], [CHR 0xC2, CHR 0xA0],
      [CHR 0xE1, CHR 0x9A, CHR 0x80],
      [CHR 0xE2, CHR 0x80, CHR 0x80], [CHR 0xE2, CHR 0x80, CHR 0x81],
      [CHR 0xE2, CHR 0x80, CHR 0x82], [CHR 0xE2, CHR 0x80, CHR 0x83],
      [CHR 0xE2, CHR 0x80, CHR 0x84], [CHR 0xE2, CHR 0x80, CHR 0x85],
      [CHR 0xE2, CHR 0x80, CHR 0x86], [CHR 0xE2, CHR 0x80, CHR 0x87],
      [CHR 0xE2, CHR 0x80, CHR 0x88], [CHR 0xE2, CHR 0x80, CHR 0x89],
      [CHR 0xE2, CHR 0x80, CHR 0x8A],
      [CHR 0xE2, CHR 0x80, CHR 0xA8], [CHR 0xE2, CHR 0x80, CHR 0xA9],
      [CHR 0xE2, CHR 0x80, CHR 0xAF], [CHR 0xE2, CHR 0x81, CHR 0x9F],
      [CHR 0xE3, CHR 0x80, CHR 0x80]]"

text \<open>The number of bytes of the white-space rune a string starts with, 0 when it starts with none.\<close>

definition leadingSpace :: "string \<Rightarrow> nat" where
  "leadingSpace s =
     (case filter (\<lambda>p. take (length p) s = p) spaceSeqs of [] \<Rightarrow> 0 | p # _ \<Rightarrow> length p)"

function TrimLeft :: "string \<Rightarrow> string" where
  "TrimLeft s = (if leadingSpace s = 0 then s else TrimLeft (drop (leadingSpace s) s))"
  by pat_completeness auto
termination
proof (relation "measure length")
  show "wf (measure length)" by simp
next
  fix s :: string
  assume "leadingSpace s \<noteq> 0"
  moreover have "leadingSpace s \<le> length s"
  proof (cases "filter (\<lambda>p. take (length p) s = p) spaceSeqs")
    case Nil
    then show ?thesis by (simp add: leadingSpace_def)
  next
    case (Cons p ps)
    then have "p \<in> set (filter (\<lambda>p. take (length p) s = p) spaceSeqs)" by simp
    then have "take (length p) s = p" by simp
    then have "length p \<le> length s" by (metis length_take min.cobounded1)
    with Cons show ?thesis by (simp add: leadingSpace_def)
  qed
  ultimately show "(drop (leadingSpace s) s, s) \<in> measure length" by simp
qed

declare TrimLeft.simps [simp del]

text \<open>
  The same from the right end. A white-space rune ends the string exactly when one of the
  byte sequences does, so the trailing runes are the leading ones of the reversed string with
  each sequence reversed.
\<close>

definition trailingSpace :: "string \<Rightarrow> nat" where
  "trailingSpace s =
     (case filter (\<lambda>p. take (length p) (rev s) = rev p) spaceSeqs of
        [] \<Rightarrow> 0 | p # _ \<Rightarrow> length p)"

function TrimRight :: "string \<Rightarrow> string" where
  "TrimRight s =
     (if trailingSpace s = 0 then s else TrimRight (take (length s - trailingSpace s) s))"
  by pat_completeness auto
termination
proof (relation "measure length")
  show "wf (measure length)" by simp
next
  fix s :: string
  assume "trailingSpace s \<noteq> 0"
  moreover have "trailingSpace s \<le> length s"
  proof (cases "filter (\<lambda>p. take (length p) (rev s) = rev p) spaceSeqs")
    case Nil
    then show ?thesis by (simp add: trailingSpace_def)
  next
    case (Cons p ps)
    then have "p \<in> set (filter (\<lambda>p. take (length p) (rev s) = rev p) spaceSeqs)" by simp
    then have "take (length p) (rev s) = rev p" by simp
    then have "length p \<le> length s" by (metis length_rev length_take min.cobounded1)
    with Cons show ?thesis by (simp add: trailingSpace_def)
  qed
  ultimately show "(take (length s - trailingSpace s) s, s) \<in> measure length" by simp
qed

declare TrimRight.simps [simp del]

definition TrimSpace :: "string \<Rightarrow> string" where
  "TrimSpace s = TrimRight (TrimLeft s)"

subsection \<open>url.QueryEscape\<close>

text \<open>
  \<open>url.QueryEscape\<close> keeps ASCII letters, digits and \<open>- _ . ~\<close>, writes a space as \<open>+\<close>
  and every other byte as \<open>%\<close> followed by two upper-case hexadecimal digits.
\<close>

definition upperhex :: "string" where
  "upperhex = ''0123456789ABCDEF''"

definition unreserved :: "char \<Rightarrow> bool" where
  "unreserved c \<longleftrightarrow>
     (CHR ''a'' \<le> c \<and> c \<le> CHR ''z'') \<or> (CHR ''A'' \<le> c \<and> c \<le> CHR ''Z'') \<or>
     (CHR ''0'' \<le> c \<and> c \<le> CHR ''9'') \<or> c \<in> set ''-_.~''"

definition escapeByte :: "char \<Rightarrow> string" where
  "escapeByte c =
     (if unreserved c then [c]
      else if c = CHR '' '' then ''+''
      else [CHR ''%'', upperhex ! (of_char c div 16), upperhex ! (of_char c mod 16)])"

definition QueryEscape :: "string \<Rightarrow> string" where
  "QueryEscape s = concat (map escapeByte s)"

subsection \<open>url.Values\<close>

text \<open>
  \<open>url.Values\<close> is a map from a key to a list of values. It is kept here as an association
  list with distinct keys in the order of their first insertion, so that the order in which
  \<open>Encode\<close> writes the keys is seen to be its own: \<open>Encode\<close> writes the keys sorted, each as
  \<open>key=value\<close> with both sides escaped, joined by \<open>&\<close>.
\<close>

type_synonym Values = "(string \<times> string list) list"

fun Values_Set :: "string \<Rightarrow> string \<Rightarrow> Values \<Rightarrow> Values" where
  "Values_Set k v [] = [(k, [v])]"
| "Values_Set k v ((k', vs) # ps) =
     (if k' = k then (k, [v]) # ps else (k', vs) # Values_Set k v ps)"

fun joinAmp :: "string list \<Rightarrow> string" where
  "joinAmp [] = []"
| "joinAmp [x] = x"
| "joinAmp (x # y # ys) = x @ ''&'' @ joinAmp (y # ys)"

definition encodeKey :: "string \<times> string list \<Rightarrow> string list" where
  "encodeKey p = map (\<lambda>v. QueryEscape (fst p) @ ''='' @ QueryEscape v) (snd p)"

definition Encode :: "Values \<Rightarrow> string" where
  "Encode vs = joinAmp (concat (map encodeKey (sort_key fst vs)))"

subsection \<open>url.QueryUnescape and the loop of url.ParseQuery\<close>

text \<open>
  \<open>url.QueryUnescape\<close> reads \<open>+\<close> as a space and \<open>%\<close> with two hexadecimal digits as the
  byte they denote, and fails on any other \<open>%\<close>. \<open>url.ParseQuery\<close> cuts the query string at
  each \<open>&\<close>, skips empty segments, refuses a segment with a semicolon, cuts a segment at its
  first \<open>=\<close> and unescapes both sides. It files the pairs in a map; \<open>parseQuery\<close> yields
  them as the list in the order in which that loop meets them, which is the order of the
  parameters in the string.
\<close>

fun unhex :: "char \<Rightarrow> nat option" where
  "unhex c =
     (if CHR ''0'' \<le> c \<and> c \<le> CHR ''9'' then Some (of_char c - 48)
      else if CHR ''a'' \<le> c \<and> c \<le> CHR ''f'' then Some (of_char c - 87)
      else if CHR ''A'' \<le> c \<and> c \<le> CHR ''F'' then Some (of_char c - 55)
      else None)"

fun QueryUnescape :: "string \<Rightarrow> string option" where
  "QueryUnescape [] = Some []"
| "QueryUnescape (c # cs) =
     (if c = CHR ''%'' then
        (case cs of
           a # b # rest \<Rightarrow>
             (case (unhex a, unhex b) of
                (Some x, Some y) \<Rightarrow> map_option ((#) (char_of (16 * x + y))) (QueryUnescape rest)
              | _ \<Rightarrow> None)
         | _ \<Rightarrow> None)
      else if c = CHR ''+'' then map_option ((#) (CHR '' '')) (QueryUnescape cs)
      else map_option ((#) c) (QueryUnescape cs))"

fun splitOn :: "char \<Rightarrow> string \<Rightarrow> string list" where
  "splitOn d [] = [[]]"
| "splitOn d (c # cs) =
     (if c = d then [] # splitOn d cs
      else (case splitOn d cs of x # xs \<Rightarrow> (c # x) # xs | [] \<Rightarrow> [[c]]))"

definition parsePair :: "string \<Rightarrow> (string \<times> string) option" where
  "parsePair seg =
     (if CHR '';'' \<in> set seg then None
      else (case (QueryUnescape (takeWhile (\<lambda>c. c \<noteq> CHR ''='') seg),
                  QueryUnescape (drop 1 (dropWhile (\<lambda>c. c \<noteq> CHR ''='') seg))) of
              (Some k, Some v) \<Rightarrow> Some (k, v)
            | _ \<Rightarrow> None))"

fun collect :: "'a option list \<Rightarrow> 'a list option" where
  "collect [] = Some []"
| "collect (None # xs) = None"
| "collect (Some x # xs) = map_option ((#) x) (collect xs)"

definition parseQuery :: "string \<Rightarrow> (string \<times> string) list option" where
  "parseQuery s = collect (map parsePair (filter (\<lambda>seg. seg \<noteq> []) (splitOn (CHR ''&'') s)))"

subsection \<open>Decimal rendering of an integer (the verb %d)\<close>

fun digits :: "nat \<Rightarrow> string" where
  "digits n =
     (if n < 10 then [''0123456789'' ! n] else digits (n div 10) @ [''0123456789'' ! (n mod 10)])"

declare digits.simps [simp del]

definition showInt :: "int \<Rightarrow> string" where
  "showInt i = (if i < 0 then ''-'' @ digits (nat (- i)) else digits (nat i))"

section \<open>The query builder (celestrak/query.go)\<close>

record TableFlags =
  BSTAR :: bool
  ShowOps :: bool
  Oldest :: bool
  Docked :: bool
  Movers :: bool

record Query =
  CATNR :: string
  INTDES :: string
  GROUP :: string
  NAME :: string
  SPECIAL :: string
  FORMAT :: string
  TableFlags :: TableFlags

definition FormatTLE :: string where
  "FormatTLE = ''TLE''"

text \<open>The relative reference \<open>&url.URL{Path: ..., RawQuery: ...}\<close> that \<open>BuildURL\<close> resolves.\<close>

record URL =
  Path :: string
  RawQuery :: string

text \<open>
  The base \<open>*url.URL\<close> is used by \<open>BuildURL\<close> through one expression only,
  \<open>base.ResolveReference(rel).String()\<close>. A base is represented by that operation, a function
  from the relative reference to the resulting string; \<open>None\<close> is the nil pointer.
\<close>

type_synonym BaseURL = "URL \<Rightarrow> string"

text \<open>
  The value of that operation for a base that is an origin only (scheme and host, such as
  the default \<open>https://celestrak.org\<close>) and a reference whose path is absolute and needs no
  escaping or dot-segment removal.
\<close>

definition originURL :: "string \<Rightarrow> BaseURL" where
  "originURL origin rel =
     origin @ Path rel @ (if RawQuery rel = [] then [] else ''?'' @ RawQuery rel)"

datatype ctxerr = Canceled | DeadlineExceeded

text \<open>
  A response as the client reads it: status code and status line, the ETag header, and the
  body as the bytes it delivers followed by end of file (\<open>None\<close>) or by a read failure.
\<close>

record Response =
  StatusCode :: int
  Status :: string
  ETag :: string
  Body :: string
  BodyFailure :: "string option"

text \<open>
  Go error values. \<open>Errorf p e\<close> is \<open>fmt.Errorf(p + ": %w", e)\<close>, a value of the library's
  wrapping type whose \<open>Unwrap\<close> is \<open>e\<close>; \<open>e = None\<close> is a nil operand. \<open>ContextErr\<close> is the
  value of \<open>ctx.Err()\<close>, \<open>TransportErr\<close> an error of \<open>net/http\<close> from creating or
  sending the request, \<open>ReadErr\<close> an error of reading a body. The type assertions of the
  code, \<open>err.(*QueryError)\<close> and \<open>err.(*ErrorResponse)\<close>, are matches on the outermost
  constructor.
\<close>

datatype error =
    QueryError string
  | ErrorResponse "Response option" string
  | ContextErr ctxerr
  | TransportErr string
  | ReadErr string
  | Errorf string "error option"

text \<open>The closure \<open>set\<close> of \<open>singleSelector\<close>, on its captured variables \<open>(key, val, err)\<close>.\<close>

type_synonym selstate = "string \<times> string \<times> error option"

definition set_sel :: "string \<Rightarrow> string \<Rightarrow> selstate \<Rightarrow> selstate" where
  "set_sel k v0 st =
     (case st of (key, val, err) \<Rightarrow>
        let v = TrimSpace v0 in
        if v = [] \<or> err \<noteq> None then st
        else if key \<noteq> [] then
          (key, val, Some (QueryError ''set exactly one of CATNR/INTDES/GROUP/NAME/SPECIAL''))
        else (k, v, None))"

definition singleSelector :: "Query \<Rightarrow> error + (string \<times> string)" where
  "singleSelector q =
     (case set_sel ''SPECIAL'' (SPECIAL q)
            (set_sel ''NAME'' (NAME q)
              (set_sel ''GROUP'' (GROUP q)
                (set_sel ''INTDES'' (INTDES q)
                  (set_sel ''CATNR'' (CATNR q) ([], [], None))))) of
        (key, val, err) \<Rightarrow>
          (case err of
             Some e \<Rightarrow> Inl e
           | None \<Rightarrow>
               if key = [] then
                 Inl (QueryError ''missing selector (set one of CATNR/INTDES/GROUP/NAME/SPECIAL)'')
               else Inr (key, val)))"

definition addTableFlags :: "Query \<Rightarrow> Values \<Rightarrow> Values" where
  "addTableFlags q params =
     (let f = TableFlags q;
          p1 = (if BSTAR f then Values_Set ''BSTAR'' ''1'' params else params);
          p2 = (if ShowOps f then Values_Set ''SHOW-OPS'' ''1'' p1 else p1);
          p3 = (if Oldest f then Values_Set ''OLDEST'' ''1'' p2 else p2);
          p4 = (if Docked f then Values_Set ''DOCKED'' ''1'' p3 else p3)
      in if Movers f then Values_Set ''MOVERS'' ''1'' p4 else p4)"

text \<open>The \<open>url.Values\<close> that \<open>BuildURL\<close> has filled when it calls \<open>Encode\<close>.\<close>

definition buildParams :: "Query \<Rightarrow> string \<Rightarrow> string \<Rightarrow> string \<Rightarrow> Values" where
  "buildParams q endpoint key val =
     (let format = (if FORMAT q = [] then FormatTLE else FORMAT q);
          params = Values_Set ''FORMAT'' format (Values_Set key val [])
      in if endpoint = ''table.php'' then addTableFlags q params else params)"

definition BuildURL :: "Query \<Rightarrow> BaseURL option \<Rightarrow> string \<Rightarrow> error + string" where
  "BuildURL q base endpoint =
     (case base of
        None \<Rightarrow> Inl (QueryError ''base URL is nil'')
      | Some b \<Rightarrow>
          if endpoint = [] then Inl (QueryError ''endpoint is required'')
          else
            (case singleSelector q of
               Inl err \<Rightarrow> Inl err
             | Inr (key, val) \<Rightarrow>
                 Inr (b \<lparr>Path = ''/NORAD/elements/'' @ endpoint,
                         RawQuery = Encode (buildParams q endpoint key val)\<rparr>)))"

section \<open>Errors and the retry decision (errors.go, client.go)\<close>

definition IsServerError :: "Response option \<Rightarrow> bool" where
  "IsServerError r = (case r of None \<Rightarrow> False | Some resp \<Rightarrow> StatusCode resp \<ge> 500)"

text \<open>\<open>IsQueryError\<close> is the type assertion \<open>err.(*QueryError)\<close>: it looks at the dynamic type
  of the value itself and does not unwrap.\<close>

fun IsQueryError :: "error option \<Rightarrow> bool" where
  "IsQueryError (Some (QueryError m)) = True"
| "IsQueryError e = False"

fun shouldRetry :: "error option \<Rightarrow> bool" where
  "shouldRetry None = False"
| "shouldRetry (Some err) =
     (if IsQueryError (Some err) then False
      else (case err of ErrorResponse r m \<Rightarrow> IsServerError r | _ \<Rightarrow> True))"

section \<open>The fetch engine (client.go)\<close>

text \<open>
  The client. The HTTP transport and the cache are ports: what they answer is part of the
  environment below, what the client asks of them is recorded as events. \<open>cache\<close> says
  whether a cache is configured (\<open>c.cache != nil\<close>). \<open>maxRetries\<close> is a Go \<open>int\<close>;
  the loop counter runs from 0 to at most one more, so both are integers here, exact for every
  value of \<open>maxRetries\<close> below the largest \<open>int\<close>. \<open>retryDelay\<close> is a
  \<open>time.Duration\<close>, a signed 64-bit count of nanoseconds whose doubling wraps.
\<close>

record Client =
  baseURL :: "BaseURL option"
  userAgent :: string
  cache :: bool
  maxRetries :: int
  retryDelay :: "64 word"

definition NewClient :: Client where
  "NewClient = \<lparr>baseURL = Some (originURL ''https://celestrak.org''),
                 userAgent = ''celestrak-go/0.0.1'',
                 cache = False,
                 maxRetries = 3,
                 retryDelay = 1000000000\<rparr>"

definition WithRetries :: "int \<Rightarrow> 64 word \<Rightarrow> Client \<Rightarrow> Client" where
  "WithRetries m d c = c\<lparr>maxRetries := m, retryDelay := d\<rparr>"

definition WithCache :: "Client \<Rightarrow> Client" where
  "WithCache c = c\<lparr>cache := True\<rparr>"

definition WithUserAgent :: "string \<Rightarrow> Client \<Rightarrow> Client" where
  "WithUserAgent ua c = c\<lparr>userAgent := ua\<rparr>"

definition maxResponseSize :: nat where
  "maxResponseSize = 100 * 1024 * 1024"

text \<open>A context value; \<open>None\<close> is the nil interface.\<close>

datatype Context = Ctx

record Request =
  reqURL :: string
  reqUserAgent :: "string option"
  reqIfNoneMatch :: "string option"

text \<open>
  What the surroundings answer during one iteration of the retry loop, in the order the code
  asks: \<open>ctx.Err()\<close> at the top of the loop; the \<open>select\<close> (\<open>None\<close>: the timer fired,
  \<open>Some e\<close>: \<open>ctx.Done()\<close> was taken and \<open>ctx.Err()\<close> is \<open>e\<close>); \<open>ctx.Err()\<close> on entry to
  \<open>fetchOnce\<close>; the result of \<open>c.cache.Get\<close>; the error of \<open>http.NewRequestWithContext\<close>;
  the result of \<open>c.httpClient.Do\<close>; \<open>ctx.Err()\<close> after a failed \<open>Do\<close>.
\<close>

record attempt_env =
  ctxErrLoop :: "ctxerr option"
  waitDone :: "ctxerr option"
  ctxErrOnce :: "ctxerr option"
  cacheGet :: "string \<times> string \<times> bool"
  newRequestErr :: "string option"
  doResult :: "string + Response"
  ctxErrDo :: "ctxerr option"

text \<open>What the client does to the outside: calls of the cache, of the transport, of the
  timer, and the start of each attempt.\<close>

datatype event =
    Attempt
  | Wait "64 word"
  | CacheGet string
  | HttpDo Request
  | CachePut string string string

text \<open>
  \<open>io.ReadAll(io.LimitReader(resp.Body, n))\<close>: at most \<open>n\<close> bytes; the failure of the body
  is met only when the body ends before the limit.
\<close>

definition readAllLimit :: "nat \<Rightarrow> Response \<Rightarrow> string \<times> string option" where
  "readAllLimit n resp =
     (take n (Body resp), if length (Body resp) < n then BodyFailure resp else None)"

definition fetchOnce ::
  "Client \<Rightarrow> attempt_env \<Rightarrow> Context option \<Rightarrow> Query \<Rightarrow> string \<Rightarrow> (error + string) \<times> event list"
where
  "fetchOnce c env ctx q endpoint =
     (case ctx of
        None \<Rightarrow> (Inl (QueryError ''context must be non-nil''), [])
      | Some _ \<Rightarrow>
     (case ctxErrOnce env of
        Some e \<Rightarrow> (Inl (Errorf ''context error'' (Some (ContextErr e))), [])
      | None \<Rightarrow>
     (case BuildURL q (baseURL c) endpoint of
        Inl err \<Rightarrow> (Inl (Errorf ''build URL'' (Some err)), [])
      | Inr fullURL \<Rightarrow>
     (let cacheKey = fullURL;
          (cached, etag, hasCache) = (if cache c then cacheGet env else ([], [], False));
          evGet = (if cache c then [CacheGet cacheKey] else [])
      in
     (case newRequestErr env of
        Some m \<Rightarrow> (Inl (Errorf ''create request'' (Some (TransportErr m))), evGet)
      | None \<Rightarrow>
     (let req = \<lparr>reqURL = fullURL,
                 reqUserAgent = (if userAgent c \<noteq> [] then Some (userAgent c) else None),
                 reqIfNoneMatch = (if hasCache \<and> etag \<noteq> [] then Some etag else None)\<rparr>;
          evDo = evGet @ [HttpDo req]
      in
     (case doResult env of
        Inl m \<Rightarrow>
          (case ctxErrDo env of
             Some e \<Rightarrow> (Inl (Errorf ''request cancelled'' (Some (ContextErr e))), evDo)
           | None \<Rightarrow> (Inl (Errorf ''request failed'' (Some (TransportErr m))), evDo))
      | Inr resp \<Rightarrow>
          if StatusCode resp = 304 then
            (if hasCache then (Inr cached, evDo)
             else (Inl (ErrorResponse (Some resp)
                          ''304 Not Modified but no cached body available''), evDo))
          else if StatusCode resp < 200 \<or> StatusCode resp > 299 then
            (let b = fst (readAllLimit 8192 resp);
                 message = TrimSpace b
             in (Inl (ErrorResponse (Some resp) (if message = [] then Status resp else message)),
                 evDo))
          else
            (case readAllLimit maxResponseSize resp of
               (body, Some m) \<Rightarrow> (Inl (Errorf ''read response'' (Some (ReadErr m))), evDo)
             | (body, None) \<Rightarrow>
                 if length body = maxResponseSize \<and> length (Body resp) > maxResponseSize then
                   (Inl (ErrorResponse (Some resp)
                           (''response too large (exceeds '' @ showInt (int maxResponseSize)
                              @ '' bytes)'')), evDo)
                 else if length body = 0 then
                   (Inl (ErrorResponse (Some resp) ''empty response body''), evDo)
                 else if cache c then
                   (Inr body, evDo @ [CachePut cacheKey body (TrimSpace (ETag resp))])
                 else (Inr body, evDo)))))))))"

text \<open>The result of a call: it returns, or the goroutine panics.\<close>

datatype 'a outcome = Return 'a | Panic

text \<open>
  The loop of \<open>fetch\<close>, from iteration \<open>attempt\<close> on, with the loop variables \<open>delay\<close> and
  \<open>lastErr\<close>. Calling \<open>ctx.Err()\<close> on a nil interface value is a nil dereference, a run-time
  panic. The environment of iteration \<open>i\<close> is \<open>env i\<close>.
\<close>

function fetch_loop ::
  "Client \<Rightarrow> (nat \<Rightarrow> attempt_env) \<Rightarrow> Context option \<Rightarrow> Query \<Rightarrow> string \<Rightarrow>
   nat \<Rightarrow> 64 word \<Rightarrow> error option \<Rightarrow> (error + string) outcome \<times> event list"
where
  "fetch_loop c env ctx q endpoint attempt delay lastErr =
     (if int attempt \<le> maxRetries c then
        (case ctx of
           None \<Rightarrow> (Panic, [])
         | Some _ \<Rightarrow>
        (case ctxErrLoop (env attempt) of
           Some e \<Rightarrow> (Return (Inl (Errorf ''context cancelled'' (Some (ContextErr e)))), [])
         | None \<Rightarrow>
             if attempt > 0 \<and> waitDone (env attempt) \<noteq> None then
               (Return (Inl (Errorf ''context cancelled during retry''
                               (map_option ContextErr (waitDone (env attempt))))), [Wait delay])
             else
               (let evWait = (if attempt > 0 then [Wait delay] else []);
                    delay' = (if attempt > 0 then delay * 2 else delay);
                    (r, evs) = fetchOnce c (env attempt) ctx q endpoint
                in
                (case r of
                   Inr data \<Rightarrow> (Return (Inr data), evWait @ Attempt # evs)
                 | Inl err \<Rightarrow>
                     if \<not> shouldRetry (Some err) then
                       (Return (Inl err), evWait @ Attempt # evs)
                     else
                       (case fetch_loop c env ctx q endpoint (Suc attempt) delay' (Some err) of
                          (res, rest) \<Rightarrow> (res, evWait @ Attempt # evs @ rest))))))
      else
        (Return (Inl (Errorf (''max retries ('' @ showInt (maxRetries c) @ '') exceeded'')
                        lastErr)), []))"
  by pat_completeness auto
termination
  by (relation "measure (\<lambda>(c, env, ctx, q, endpoint, attempt, delay, lastErr).
                          nat (maxRetries c + 1 - int attempt))") auto

declare fetch_loop.simps [simp del]

definition fetch ::
  "Client \<Rightarrow> (nat \<Rightarrow> attempt_env) \<Rightarrow> Context option \<Rightarrow> Query \<Rightarrow> string \<Rightarrow>
   (error + string) outcome \<times> event list"
where
  "fetch c env ctx q endpoint = fetch_loop c env ctx q endpoint 0 (retryDelay c) None"

definition FetchGP where
  "FetchGP c env ctx q = fetch c env ctx q ''gp.php''"

definition FetchGPFirst where
  "FetchGPFirst c env ctx q = fetch c env ctx q ''gp-first.php''"

definition FetchGPLast where
  "FetchGPLast c env ctx q = fetch c env ctx q ''gp-last.php''"

definition FetchTable where
  "FetchTable c env ctx q = fetch c env ctx q ''table.php''"

section \<open>Vocabulary of the properties\<close>

subsection \<open>Selectors and parameters\<close>

definition selectorKeys :: "string list" where
  "selectorKeys = [''CATNR'', ''INTDES'', ''GROUP'', ''NAME'', ''SPECIAL'']"

definition flagKeys :: "string list" where
  "flagKeys = [''BSTAR'', ''SHOW-OPS'', ''OLDEST'', ''DOCKED'', ''MOVERS'']"

text \<open>The five selector fields after trimming, and those of them that are not empty.\<close>

definition selectorFields :: "Query \<Rightarrow> (string \<times> string) list" where
  "selectorFields q =
     [(''CATNR'', TrimSpace (CATNR q)), (''INTDES'', TrimSpace (INTDES q)),
      (''GROUP'', TrimSpace (GROUP q)), (''NAME'', TrimSpace (NAME q)),
      (''SPECIAL'', TrimSpace (SPECIAL q))]"

definition activeSelectors :: "Query \<Rightarrow> (string \<times> string) list" where
  "activeSelectors q = filter (\<lambda>p. snd p \<noteq> []) (selectorFields q)"

text \<open>
  All parameter keys in ascending byte order; whether the table flag named \<open>k\<close> is set; and,
  for a query with the selector \<open>key\<close> and the trimmed value \<open>val\<close>, which keys are
  parameters of the URL, with which values, and the resulting list of parameters.
\<close>

definition sortedKeys :: "string list" where
  "sortedKeys = [''BSTAR'', ''CATNR'', ''DOCKED'', ''FORMAT'', ''GROUP'', ''INTDES'',
                 ''MOVERS'', ''NAME'', ''OLDEST'', ''SHOW-OPS'', ''SPECIAL'']"

definition flagSet :: "Query \<Rightarrow> string \<Rightarrow> bool" where
  "flagSet q k \<longleftrightarrow>
     (k = ''BSTAR'' \<and> BSTAR (TableFlags q)) \<or> (k = ''SHOW-OPS'' \<and> ShowOps (TableFlags q)) \<or>
     (k = ''OLDEST'' \<and> Oldest (TableFlags q)) \<or> (k = ''DOCKED'' \<and> Docked (TableFlags q)) \<or>
     (k = ''MOVERS'' \<and> Movers (TableFlags q))"

definition paramPresent :: "Query \<Rightarrow> string \<Rightarrow> string \<Rightarrow> string \<Rightarrow> bool" where
  "paramPresent q endpoint key k \<longleftrightarrow>
     k = key \<or> k = ''FORMAT'' \<or> (endpoint = ''table.php'' \<and> flagSet q k)"

definition paramValue :: "Query \<Rightarrow> string \<Rightarrow> string \<Rightarrow> string \<Rightarrow> string" where
  "paramValue q key val k =
     (if k = key then val
      else if k = ''FORMAT'' then (if FORMAT q = [] then ''TLE'' else FORMAT q)
      else ''1'')"

definition urlParams :: "Query \<Rightarrow> string \<Rightarrow> string \<Rightarrow> string \<Rightarrow> (string \<times> string) list" where
  "urlParams q endpoint key val =
     map (\<lambda>k. (k, paramValue q key val k)) (filter (paramPresent q endpoint key) sortedKeys)"

text \<open>
  The query string the specification describes: the parameters written in the order of their
  insertion. It differs from \<open>Encode\<close> in the missing sort only.
\<close>

definition EncodeInsertionOrder :: "Values \<Rightarrow> string" where
  "EncodeInsertionOrder vs = joinAmp (concat (map encodeKey vs))"

subsection \<open>Attempts and their events\<close>

text \<open>The attempt reaches the transport, and the transport answers with the response \<open>resp\<close>.\<close>

definition receives ::
  "Client \<Rightarrow> attempt_env \<Rightarrow> Context option \<Rightarrow> Query \<Rightarrow> string \<Rightarrow> Response \<Rightarrow> bool" where
  "receives c env ctx q endpoint resp \<longleftrightarrow>
     ctx \<noteq> None \<and> ctxErrOnce env = None \<and> \<not> isl (BuildURL q (baseURL c) endpoint) \<and>
     newRequestErr env = None \<and> doResult env = Inr resp"

fun isPut :: "event \<Rightarrow> bool" where
  "isPut (CachePut k d t) = True"
| "isPut e = False"

fun isRequest :: "event \<Rightarrow> bool" where
  "isRequest (HttpDo r) = True"
| "isRequest e = False"

fun isLoopEvent :: "event \<Rightarrow> bool" where
  "isLoopEvent Attempt = True"
| "isLoopEvent (Wait d) = True"
| "isLoopEvent e = False"

text \<open>The request an attempt sends for the URL \<open>u\<close>, and the events up to its sending.\<close>

definition requestOf :: "Client \<Rightarrow> attempt_env \<Rightarrow> string \<Rightarrow> Request" where
  "requestOf c env u =
     \<lparr>reqURL = u,
      reqUserAgent = (if userAgent c \<noteq> [] then Some (userAgent c) else None),
      reqIfNoneMatch =
        (if cache c \<and> snd (snd (cacheGet env)) \<and> fst (snd (cacheGet env)) \<noteq> []
         then Some (fst (snd (cacheGet env))) else None)\<rparr>"

definition requestEvents :: "Client \<Rightarrow> attempt_env \<Rightarrow> string \<Rightarrow> event list" where
  "requestEvents c env u = (if cache c then [CacheGet u] else []) @ [HttpDo (requestOf c env u)]"

subsection \<open>Iterations of the retry loop\<close>

text \<open>
  Iteration \<open>i\<close> runs its attempt and the attempt fails with an error that \<open>shouldRetry\<close>
  accepts: the context is live at the top of the loop, the timer fires, \<open>fetchOnce\<close> fails.
\<close>

definition retryableFailure ::
  "Client \<Rightarrow> (nat \<Rightarrow> attempt_env) \<Rightarrow> Context option \<Rightarrow> Query \<Rightarrow> string \<Rightarrow> nat \<Rightarrow> bool" where
  "retryableFailure c env ctx q endpoint i \<longleftrightarrow>
     ctxErrLoop (env i) = None \<and> (i > 0 \<longrightarrow> waitDone (env i) = None) \<and>
     (case fst (fetchOnce c (env i) ctx q endpoint) of
        Inl e \<Rightarrow> shouldRetry (Some e) | Inr data \<Rightarrow> False)"

text \<open>The attempt of this iteration fails in the transport, with a live context throughout.\<close>

definition transportFails :: "attempt_env \<Rightarrow> bool" where
  "transportFails e \<longleftrightarrow>
     ctxErrLoop e = None \<and> waitDone e = None \<and> ctxErrOnce e = None \<and>
     newRequestErr e = None \<and> isl (doResult e) \<and> ctxErrDo e = None"

text \<open>The value of the loop variable \<open>delay\<close> at the top of iteration \<open>i\<close>.\<close>

definition delayAt :: "64 word \<Rightarrow> nat \<Rightarrow> 64 word" where
  "delayAt d i = (if i = 0 then d else d * 2 ^ (i - 1))"

text \<open>The events of iteration \<open>i\<close> when it runs its attempt, and those of the iterations
  before \<open>k\<close>.\<close>

definition iterEvents ::
  "Client \<Rightarrow> (nat \<Rightarrow> attempt_env) \<Rightarrow> Context option \<Rightarrow> Query \<Rightarrow> string \<Rightarrow> nat \<Rightarrow> event list" where
  "iterEvents c env ctx q endpoint i =
     (if i > 0 then [Wait (delayAt (retryDelay c) i)] else []) @
     Attempt # snd (fetchOnce c (env i) ctx q endpoint)"

definition eventsBefore ::
  "Client \<Rightarrow> (nat \<Rightarrow> attempt_env) \<Rightarrow> Context option \<Rightarrow> Query \<Rightarrow> string \<Rightarrow> nat \<Rightarrow> event list" where
  "eventsBefore c env ctx q endpoint k = concat (map (iterEvents c env ctx q endpoint) [0..<k])"

text \<open>The value of the loop variable \<open>lastErr\<close> at the top of iteration \<open>k\<close>.\<close>

definition lastErrAt ::
  "Client \<Rightarrow> (nat \<Rightarrow> attempt_env) \<Rightarrow> Context option \<Rightarrow> Query \<Rightarrow> string \<Rightarrow> nat \<Rightarrow> error option" where
  "lastErrAt c env ctx q endpoint k =
     (if k = 0 then None
      else (case fst (fetchOnce c (env (k - 1)) ctx q endpoint) of
              Inl e \<Rightarrow> Some e | Inr data \<Rightarrow> None))"

fun waitsOf :: "event list \<Rightarrow> 64 word list" where
  "waitsOf [] = []"
| "waitsOf (Wait d # evs) = d # waitsOf evs"
| "waitsOf (e # evs) = waitsOf evs"

definition countAttempts :: "event list \<Rightarrow> nat" where
  "countAttempts evs = length (filter (\<lambda>e. e = Attempt) evs)"

definition countRequests :: "event list \<Rightarrow> nat" where
  "countRequests evs = length (filter isRequest evs)"

subsection \<open>Sample inputs\<close>

definition noFlags :: TableFlags where
  "noFlags = \<lparr>BSTAR = False, ShowOps = False, Oldest = False, Docked = False, Movers = False\<rparr>"

definition emptyQuery :: Query where
  "emptyQuery = \<lparr>CATNR = [], INTDES = [], GROUP = [], NAME = [], SPECIAL = [],
                  FORMAT = [], TableFlags = noFlags\<rparr>"

definition groupQuery :: Query where
  "groupQuery = emptyQuery\<lparr>GROUP := ''STATIONS''\<rparr>"

definition catnrQuery :: Query where
  "catnrQuery = emptyQuery\<lparr>CATNR := ''25544'', FORMAT := ''JSON''\<rparr>"

text \<open>Surroundings with a live context, a firing timer, an empty cache and a transport that
  refuses the connection; and the same with a transport that answers.\<close>

definition refusing :: attempt_env where
  "refusing = \<lparr>ctxErrLoop = None, waitDone = None, ctxErrOnce = None,
                cacheGet = ([], [], False), newRequestErr = None,
                doResult = Inl ''connection refused'', ctxErrDo = None\<rparr>"

definition answering :: "Response \<Rightarrow> attempt_env" where
  "answering resp = refusing\<lparr>doResult := Inr resp\<rparr>"

definition cachedAnswering :: "Response \<Rightarrow> attempt_env" where
  "cachedAnswering resp =
     refusing\<lparr>doResult := Inr resp, cacheGet := (''1 25544U'', ''W/abc'', True)\<rparr>"

definition cancelledAt :: "nat \<Rightarrow> nat \<Rightarrow> attempt_env" where
  "cancelledAt k i = (if i < k then refusing else refusing\<lparr>ctxErrLoop := Some Canceled\<rparr>)"

definition cancelledInWait :: "nat \<Rightarrow> nat \<Rightarrow> attempt_env" where
  "cancelledInWait k i =
     (if i < k then refusing else refusing\<lparr>waitDone := Some DeadlineExceeded\<rparr>)"

definition response :: "int \<Rightarrow> string \<Rightarrow> string \<Rightarrow> string \<Rightarrow> Response" where
  "response code status etag body =
     \<lparr>StatusCode = code, Status = status, ETag = etag, Body = body, BodyFailure = None\<rparr>"

section \<open>The query builder: selectors and parameter order\<close>

lemma singleSelector_active:
  "singleSelector q =
     (case activeSelectors q of
        [] \<Rightarrow> Inl (QueryError ''missing selector (set one of CATNR/INTDES/GROUP/NAME/SPECIAL)'')
      | [p] \<Rightarrow> Inr p
      | _ \<Rightarrow> Inl (QueryError ''set exactly one of CATNR/INTDES/GROUP/NAME/SPECIAL''))"
  by (simp add: singleSelector_def set_sel_def activeSelectors_def selectorFields_def Let_def)

lemma keys_Values_Set:
  "map fst (Values_Set k v ps) = (if k \<in> set (map fst ps) then map fst ps else map fst ps @ [k])"
proof (induction ps)
  case Nil
  show ?case by simp
next
  case (Cons p ps)
  obtain k' vs where p: "p = (k', vs)" by (cases p)
  show ?case
  proof (cases "k' = k")
    case True
    with p show ?thesis by simp
  next
    case False
    with p Cons show ?thesis by (cases "k \<in> set (map fst ps)") simp_all
  qed
qed

lemma distinct_Values_Set:
  "distinct (map fst ps) \<Longrightarrow> distinct (map fst (Values_Set k v ps))"
  by (simp add: keys_Values_Set)


lemma map_of_Values_Set:
  "map_of (Values_Set k v ps) k' = (if k' = k then Some [v] else map_of ps k')"
  by (induction ps) auto

lemma addTableFlags_preserves:
  assumes step: "\<And>k ps. k \<in> set flagKeys \<Longrightarrow> P ps \<Longrightarrow> P (Values_Set k ''1'' ps)"
    and init: "P ps"
  shows "P (addTableFlags q ps)"
proof -
  have 1: "P (if BSTAR (TableFlags q) then Values_Set ''BSTAR'' ''1'' ps else ps)"
    (is "P ?p1") using init by (simp add: step flagKeys_def)
  have 2: "P (if ShowOps (TableFlags q) then Values_Set ''SHOW-OPS'' ''1'' ?p1 else ?p1)"
    (is "P ?p2") using 1 by (simp add: step flagKeys_def del: Values_Set.simps)
  have 3: "P (if Oldest (TableFlags q) then Values_Set ''OLDEST'' ''1'' ?p2 else ?p2)"
    (is "P ?p3") using 2 by (simp add: step flagKeys_def del: Values_Set.simps)
  have 4: "P (if Docked (TableFlags q) then Values_Set ''DOCKED'' ''1'' ?p3 else ?p3)"
    (is "P ?p4") using 3 by (simp add: step flagKeys_def del: Values_Set.simps)
  have 5: "P (if Movers (TableFlags q) then Values_Set ''MOVERS'' ''1'' ?p4 else ?p4)"
    using 4 by (simp add: step flagKeys_def del: Values_Set.simps)
  then show ?thesis by (simp add: addTableFlags_def Let_def)
qed

lemma selector_not_flag: "k \<in> set selectorKeys \<Longrightarrow> k \<notin> set flagKeys \<and> k \<noteq> ''FORMAT''"
  by (auto simp: selectorKeys_def flagKeys_def)

lemma flag_not_selector: "k \<in> set flagKeys \<Longrightarrow> k \<notin> set selectorKeys \<and> k \<noteq> ''FORMAT''"
  by (auto simp: selectorKeys_def flagKeys_def)

lemma buildParams_preserves:
  assumes step: "\<And>k ps. k \<in> set flagKeys \<Longrightarrow> P ps \<Longrightarrow> P (Values_Set k ''1'' ps)"
    and init: "P [(key, [val]), (''FORMAT'', [if FORMAT q = [] then FormatTLE else FORMAT q])]"
    and key: "key \<in> set selectorKeys"
  shows "P (buildParams q endpoint key val)"
proof -
  have "key \<noteq> ''FORMAT''" using key by (simp add: selector_not_flag)
  then have "Values_Set ''FORMAT'' (if FORMAT q = [] then FormatTLE else FORMAT q)
               (Values_Set key val []) =
             [(key, [val]), (''FORMAT'', [if FORMAT q = [] then FormatTLE else FORMAT q])]"
    by simp
  then show ?thesis
    unfolding buildParams_def Let_def
    using init step by (simp add: addTableFlags_preserves del: Values_Set.simps)
qed

lemma keys_buildParams:
  assumes k: "k \<in> set selectorKeys"
  shows "filter (\<lambda>k'. k' \<in> set selectorKeys) (map fst (buildParams q endpoint k v)) = [k]"
    and "''FORMAT'' \<in> set (map fst (buildParams q endpoint k v))"
    and "distinct (map fst (buildParams q endpoint k v))"
    and "map_of (buildParams q endpoint k v) k = Some [v]"
    and "map_of (buildParams q endpoint k v) ''FORMAT'' =
           Some [if FORMAT q = [] then FormatTLE else FORMAT q]"
proof -
  note nf = selector_not_flag [OF k]
  show "filter (\<lambda>k'. k' \<in> set selectorKeys) (map fst (buildParams q endpoint k v)) = [k]"
  proof (rule buildParams_preserves [OF _ _ k])
    show "filter (\<lambda>k'. k' \<in> set selectorKeys)
            (map fst [(k, [v]), (''FORMAT'', [if FORMAT q = [] then FormatTLE else FORMAT q])]) = [k]"
      using k by (simp add: selectorKeys_def)
  next
    fix f :: string and ps :: Values
    assume "f \<in> set flagKeys"
      and "filter (\<lambda>k'. k' \<in> set selectorKeys) (map fst ps) = [k]"
    then show "filter (\<lambda>k'. k' \<in> set selectorKeys) (map fst (Values_Set f ''1'' ps)) = [k]"
      using flag_not_selector [of f] by (simp add: keys_Values_Set)
  qed
  show "''FORMAT'' \<in> set (map fst (buildParams q endpoint k v))"
    by (rule buildParams_preserves [OF _ _ k]) (simp_all add: keys_Values_Set)
  show "distinct (map fst (buildParams q endpoint k v))"
    by (rule buildParams_preserves [OF _ _ k]) (use nf in \<open>simp_all add: distinct_Values_Set\<close>)
  show "map_of (buildParams q endpoint k v) k = Some [v]"
  proof (rule buildParams_preserves [OF _ _ k])
    show "map_of [(k, [v]), (''FORMAT'', [if FORMAT q = [] then FormatTLE else FORMAT q])] k = Some [v]"
      by simp
  next
    fix f :: string and ps :: Values
    assume "f \<in> set flagKeys" and "map_of ps k = Some [v]"
    then show "map_of (Values_Set f ''1'' ps) k = Some [v]"
      using nf by (auto simp: map_of_Values_Set)
  qed
  show "map_of (buildParams q endpoint k v) ''FORMAT'' =
           Some [if FORMAT q = [] then FormatTLE else FORMAT q]"
  proof (rule buildParams_preserves [OF _ _ k])
    show "map_of [(k, [v]), (''FORMAT'', [if FORMAT q = [] then FormatTLE else FORMAT q])] ''FORMAT'' =
            Some [if FORMAT q = [] then FormatTLE else FORMAT q]"
      using nf by auto
  next
    fix f :: string and ps :: Values
    assume "f \<in> set flagKeys"
      and "map_of ps ''FORMAT'' = Some [if FORMAT q = [] then FormatTLE else FORMAT q]"
    then show "map_of (Values_Set f ''1'' ps) ''FORMAT'' =
                 Some [if FORMAT q = [] then FormatTLE else FORMAT q]"
      using flag_not_selector [of f] by (auto simp: map_of_Values_Set)
  qed
qed

lemma distinct_keys_sort_key:
  "distinct (map f (sort_key f xs)) = distinct (map f xs)"
  by (induction xs) (simp_all add: distinct_insort_key)

lemma singleSelector_key:
  assumes "singleSelector q = Inr (key, val)"
  shows "activeSelectors q = [(key, val)]" and "key \<in> set selectorKeys"
proof -
  show a: "activeSelectors q = [(key, val)]"
    using assms unfolding singleSelector_active
    by (auto split: list.splits)
  have "(key, val) \<in> set (activeSelectors q)" by (simp add: a)
  then have "(key, val) \<in> set (selectorFields q)" by (simp add: activeSelectors_def)
  then show "key \<in> set selectorKeys"
    by (auto simp: selectorFields_def selectorKeys_def)
qed

lemma sorted_sortedKeys: "sorted sortedKeys \<and> distinct sortedKeys"
  by (simp add: sortedKeys_def)

lemma map_of_addTableFlags:
  "map_of (addTableFlags q ps) k = (if flagSet q k then Some [''1''] else map_of ps k)"
  by (simp add: addTableFlags_def Let_def map_of_Values_Set flagSet_def)

lemma map_of_buildParams_all:
  assumes "key \<in> set selectorKeys"
  shows "map_of (buildParams q endpoint key val) k =
           (if paramPresent q endpoint key k then Some [paramValue q key val k] else None)"
proof -
  have nf: "\<not> flagSet q key" "key \<noteq> ''FORMAT''" "\<not> flagSet q ''FORMAT''"
    using assms by (auto simp: selectorKeys_def flagSet_def)
  show ?thesis
    using nf
    by (auto simp: buildParams_def Let_def map_of_addTableFlags map_of_Values_Set paramPresent_def
          paramValue_def FormatTLE_def flagSet_def)
qed

lemma map_of_keyed:
  "map_of (map (\<lambda>k. (k, f k)) ks) k = (if k \<in> set ks then Some (f k) else None)"
  by (induction ks) auto

lemma present_in_sortedKeys:
  assumes "key \<in> set selectorKeys" and "paramPresent q endpoint key k"
  shows "k \<in> set sortedKeys"
  using assms by (auto simp: paramPresent_def flagSet_def selectorKeys_def sortedKeys_def)

lemma key_sorted_unique:
  assumes "sorted (map fst xs)" "distinct (map fst xs)" "sorted (map fst ys)" "distinct (map fst ys)"
    and "map_of xs = map_of ys"
  shows "xs = ys"
proof -
  have s: "set xs = set ys" using assms(2,4,5) by (simp add: map_of_inject_set)
  then have "set (map fst xs) = set (map fst ys)" by simp
  with assms have k: "map fst xs = map fst ys" by (metis sorted_distinct_set_unique)
  have "map snd xs = map snd ys"
  proof (rule nth_equalityI)
    show "length (map snd xs) = length (map snd ys)" using k by (metis length_map)
  next
    fix i assume i: "i < length (map snd xs)"
    then have ix: "i < length xs" by simp
    have iy: "i < length ys" using k ix by (metis length_map)
    have "map_of xs (fst (xs ! i)) = Some (snd (xs ! i))"
      using assms(2) ix by simp
    moreover have "map_of ys (fst (ys ! i)) = Some (snd (ys ! i))"
      using assms(4) iy by simp
    moreover have "fst (xs ! i) = fst (ys ! i)" using k ix iy by (metis nth_map)
    ultimately show "map snd xs ! i = map snd ys ! i" using assms(5) ix iy by simp
  qed
  with k show ?thesis by (metis zip_map_fst_snd)
qed

lemma sort_buildParams:
  assumes key: "key \<in> set selectorKeys"
  shows "sort_key fst (buildParams q endpoint key val) =
           map (\<lambda>k. (k, [paramValue q key val k])) (filter (paramPresent q endpoint key) sortedKeys)"
    (is "?l = ?r")
proof (rule key_sorted_unique)
  show "sorted (map fst ?l)" by (rule sorted_sort_key)
  show "distinct (map fst ?l)"
    using keys_buildParams(3) [OF key] by (simp add: distinct_keys_sort_key)
  have m: "map fst ?r = filter (paramPresent q endpoint key) sortedKeys"
    by (simp add: comp_def)
  show "sorted (map fst ?r)" unfolding m using sorted_sortedKeys by (simp add: sorted_wrt_filter)
  show "distinct (map fst ?r)" unfolding m using sorted_sortedKeys by simp
  have d: "distinct (map fst (buildParams q endpoint key val))"
    by (rule keys_buildParams(3) [OF key])
  have "map_of ?l = map_of (buildParams q endpoint key val)"
    using d by (simp add: map_of_inject_set distinct_keys_sort_key)
  also have "\<dots> = map_of ?r"
  proof
    fix k
    show "map_of (buildParams q endpoint key val) k = map_of ?r k"
      using present_in_sortedKeys [OF key, of q endpoint k]
      by (auto simp: map_of_buildParams_all [OF key] map_of_keyed)
  qed
  finally show "map_of ?l = map_of ?r" .
qed

lemma joinAmp_encodeKey_singletons:
  "concat (map (\<lambda>k. encodeKey (k, [f k])) ks) =
     map (\<lambda>k. QueryEscape k @ ''='' @ QueryEscape (f k)) ks"
  by (induction ks) (simp_all add: encodeKey_def)

lemma Encode_buildParams:
  assumes key: "key \<in> set selectorKeys"
  shows "Encode (buildParams q endpoint key val) =
           joinAmp (map (\<lambda>p. QueryEscape (fst p) @ ''='' @ QueryEscape (snd p))
                      (urlParams q endpoint key val))"
  by (simp add: Encode_def sort_buildParams [OF key] joinAmp_encodeKey_singletons urlParams_def
        comp_def)

lemma unreserved_not_special:
  "unreserved c \<Longrightarrow> c \<noteq> CHR ''&'' \<and> c \<noteq> CHR ''='' \<and> c \<noteq> CHR '';'' \<and> c \<noteq> CHR ''%'' \<and> c \<noteq> CHR ''+''"
  by (auto simp: unreserved_def)

lemma upperhex_nth:
  assumes "n < 16"
  shows "unhex (upperhex ! n) = Some n"
    and "upperhex ! n \<noteq> CHR ''&'' \<and> upperhex ! n \<noteq> CHR ''='' \<and> upperhex ! n \<noteq> CHR '';''"
proof -
  from assms have "n \<in> {0, 1, 2, 3, 4, 5, 6, 7, 8, 9, 10, 11, 12, 13, 14, 15}"
    by (simp only: insert_iff empty_iff) arith
  then show "unhex (upperhex ! n) = Some n"
    and "upperhex ! n \<noteq> CHR ''&'' \<and> upperhex ! n \<noteq> CHR ''='' \<and> upperhex ! n \<noteq> CHR '';''"
    by (auto simp: upperhex_def)
qed

lemma of_char_div: "of_char c div 16 < (16::nat)"
proof -
  have "(of_char c :: nat) mod 256 < 256" by simp
  then have "of_char c < (16 * 16 :: nat)" by (simp only: of_char_mod_256)
  then show ?thesis by (rule less_mult_imp_div_less)
qed

lemma escapeByte_clean:
  "c' \<in> set (escapeByte c) \<Longrightarrow> c' \<noteq> CHR ''&'' \<and> c' \<noteq> CHR ''='' \<and> c' \<noteq> CHR '';''"
  using unreserved_not_special [of c] upperhex_nth(2) [OF of_char_div, of c]
    upperhex_nth(2) [of "of_char c mod 16"]
  by (auto simp: escapeByte_def split: if_splits)

lemma QueryEscape_clean:
  "c' \<in> set (QueryEscape s) \<Longrightarrow> c' \<noteq> CHR ''&'' \<and> c' \<noteq> CHR ''='' \<and> c' \<noteq> CHR '';''"
  using escapeByte_clean by (auto simp: QueryEscape_def)

lemma QueryUnescape_escapeByte:
  "QueryUnescape (escapeByte c @ rest) = map_option ((#) c) (QueryUnescape rest)"
proof (cases "unreserved c")
  case True
  then show ?thesis using unreserved_not_special [of c] by (simp add: escapeByte_def)
next
  case False
  show ?thesis
  proof (cases "c = CHR '' ''")
    case True
    with False show ?thesis by (simp add: escapeByte_def)
  next
    case sp: False
    have "char_of (16 * (of_char c div 16) + of_char c mod 16 :: nat) = c" by simp
    with False sp show ?thesis
      using upperhex_nth(1) [OF of_char_div, of c] upperhex_nth(1) [of "of_char c mod 16"]
      by (simp add: escapeByte_def)
  qed
qed

lemma QueryUnescape_QueryEscape: "QueryUnescape (QueryEscape s) = Some s"
proof (induction s)
  case Nil
  show ?case by (simp add: QueryEscape_def)
next
  case (Cons c s)
  have "QueryEscape (c # s) = escapeByte c @ QueryEscape s" by (simp add: QueryEscape_def)
  then show ?case by (simp only: QueryUnescape_escapeByte Cons) simp
qed

lemma splitOn_single: "d \<notin> set x \<Longrightarrow> splitOn d x = [x]"
  by (induction x) auto

lemma splitOn_append: "d \<notin> set x \<Longrightarrow> splitOn d (x @ d # rest) = x # splitOn d rest"
  by (induction x) auto

lemma splitOn_joinAmp:
  assumes "xs \<noteq> []" and "\<forall>x \<in> set xs. CHR ''&'' \<notin> set x"
  shows "splitOn (CHR ''&'') (joinAmp xs) = xs"
  using assms
proof (induction xs rule: joinAmp.induct)
  case 1
  then show ?case by simp
next
  case (2 x)
  then show ?case by (simp add: splitOn_single)
next
  case (3 x y ys)
  then have "splitOn (CHR ''&'') (joinAmp (y # ys)) = y # ys" by simp
  moreover have "CHR ''&'' \<notin> set x" using 3 by simp
  ultimately show ?case using splitOn_append [of "CHR ''&''" x "joinAmp (y # ys)"] by simp
qed

lemma parsePair_escaped:
  "parsePair (QueryEscape k @ ''='' @ QueryEscape v) = Some (k, v)"
proof -
  have nk: "\<forall>c \<in> set (QueryEscape k). c \<noteq> CHR ''=''" and nv: "CHR '';'' \<notin> set (QueryEscape v)"
    and nk': "CHR '';'' \<notin> set (QueryEscape k)"
    using QueryEscape_clean by blast+
  have t: "takeWhile (\<lambda>c. c \<noteq> CHR ''='') (QueryEscape k @ CHR ''='' # QueryEscape v) = QueryEscape k"
    using nk by (simp add: takeWhile_tail)
  have d: "dropWhile (\<lambda>c. c \<noteq> CHR ''='') (QueryEscape k @ CHR ''='' # QueryEscape v) =
             CHR ''='' # QueryEscape v"
    using nk by (simp add: dropWhile_append3)
  show ?thesis
    using nv nk' by (simp add: parsePair_def t d QueryUnescape_QueryEscape)
qed

lemma collect_parse:
  "collect (map parsePair (map (\<lambda>p. QueryEscape (fst p) @ ''='' @ QueryEscape (snd p)) ps)) = Some ps"
  by (induction ps) (simp_all add: parsePair_escaped del: append.simps)

lemma parseQuery_escaped:
  assumes "ps \<noteq> []"
  shows "parseQuery (joinAmp (map (\<lambda>p. QueryEscape (fst p) @ ''='' @ QueryEscape (snd p)) ps)) = Some ps"
proof -
  let ?segs = "map (\<lambda>p. QueryEscape (fst p) @ ''='' @ QueryEscape (snd p)) ps"
  have c: "\<forall>x \<in> set ?segs. CHR ''&'' \<notin> set x"
    using QueryEscape_clean by auto
  have n: "filter (\<lambda>seg. seg \<noteq> []) ?segs = ?segs"
    by (simp add: filter_id_conv)
  have "splitOn (CHR ''&'') (joinAmp ?segs) = ?segs"
    using assms c by (intro splitOn_joinAmp) simp_all
  then show ?thesis
    unfolding parseQuery_def by (simp only: n collect_parse)
qed

lemma FORMAT_in_sortedKeys: "''FORMAT'' \<in> set sortedKeys"
  by (simp add: sortedKeys_def)

lemma selectors_of_sortedKeys:
  "filter (\<lambda>k. k \<in> set selectorKeys) sortedKeys =
     [''CATNR'', ''GROUP'', ''INTDES'', ''NAME'', ''SPECIAL'']"
  by (simp add: sortedKeys_def selectorKeys_def)

lemma present_selector:
  assumes "key \<in> set selectorKeys" and "k \<in> set selectorKeys"
  shows "paramPresent q endpoint key k \<longleftrightarrow> k = key"
proof -
  have "k \<noteq> ''FORMAT''" "\<not> flagSet q k"
    using assms(2) by (auto simp: selectorKeys_def flagSet_def)
  then show ?thesis by (simp add: paramPresent_def)
qed

lemma filter_the_one: "distinct xs \<Longrightarrow> x \<in> set xs \<Longrightarrow> filter (\<lambda>k. k = x) xs = [x]"
  by (induction xs) (auto simp: filter_empty_conv)

lemma urlParams_nonempty: "urlParams q endpoint key val \<noteq> []"
proof -
  have "''FORMAT'' \<in> set (filter (paramPresent q endpoint key) sortedKeys)"
    using FORMAT_in_sortedKeys by (simp only: set_filter) (simp add: paramPresent_def)
  then have "filter (paramPresent q endpoint key) sortedKeys \<noteq> []" by (metis empty_iff empty_set)
  then show ?thesis by (simp add: urlParams_def)
qed

lemma urlParams_selector:
  assumes key: "key \<in> set selectorKeys"
  shows "filter (\<lambda>p. fst p \<in> set selectorKeys) (urlParams q endpoint key val) = [(key, val)]"
proof -
  let ?sel = "[''CATNR'', ''GROUP'', ''INTDES'', ''NAME'', ''SPECIAL'']"
  have ks: "key \<in> set ?sel" using key by (auto simp: selectorKeys_def)
  have "filter (\<lambda>k. paramPresent q endpoint key k \<and> k \<in> set selectorKeys) sortedKeys =
          filter (\<lambda>k. k \<in> set selectorKeys \<and> paramPresent q endpoint key k) sortedKeys"
    by (rule filter_cong) auto
  also have "\<dots> =
          filter (paramPresent q endpoint key) (filter (\<lambda>k. k \<in> set selectorKeys) sortedKeys)"
    by (simp only: filter_filter)
  also have "\<dots> = filter (paramPresent q endpoint key) ?sel"
    by (simp only: selectors_of_sortedKeys)
  also have "\<dots> = filter (\<lambda>k. k = key) ?sel"
  proof (rule filter_cong [OF refl])
    fix k assume "k \<in> set ?sel"
    then have "k \<in> set selectorKeys" by (auto simp: selectorKeys_def)
    then show "paramPresent q endpoint key k = (k = key)" by (rule present_selector [OF key])
  qed
  also have "\<dots> = [key]" using ks by (intro filter_the_one) simp_all
  finally have f: "filter (\<lambda>k. paramPresent q endpoint key k \<and> k \<in> set selectorKeys) sortedKeys
                     = [key]" .
  have "filter (\<lambda>p. fst p \<in> set selectorKeys) (urlParams q endpoint key val) =
          map (\<lambda>k. (k, paramValue q key val k))
            (filter (\<lambda>k. paramPresent q endpoint key k \<and> k \<in> set selectorKeys) sortedKeys)"
    unfolding urlParams_def by (simp only: filter_map filter_filter comp_def fst_conv)
  then show ?thesis by (simp only: f) (simp add: paramValue_def)
qed

lemma urlParams_format:
  assumes key: "key \<in> set selectorKeys"
  shows "(''FORMAT'', if FORMAT q = [] then ''TLE'' else FORMAT q) \<in> set (urlParams q endpoint key val)"
proof -
  have k: "key \<noteq> ''FORMAT''" using key by (auto simp: selectorKeys_def)
  have "''FORMAT'' \<in> set (filter (paramPresent q endpoint key) sortedKeys)"
    using FORMAT_in_sortedKeys by (simp only: set_filter) (simp add: paramPresent_def)
  then have "(''FORMAT'', paramValue q key val ''FORMAT'') \<in> set (urlParams q endpoint key val)"
    unfolding urlParams_def by (simp only: set_map) (rule imageI)
  then show ?thesis using k by (simp add: paramValue_def)
qed

lemma QueryEscape_sortedKeys: "k \<in> set sortedKeys \<Longrightarrow> QueryEscape k = k"
  by (auto simp: sortedKeys_def QueryEscape_def escapeByte_def unreserved_def)

lemma urlParams_keys:
  "map fst (urlParams q endpoint key val) = filter (paramPresent q endpoint key) sortedKeys"
  by (simp add: urlParams_def comp_def)

lemma urlParams_raw_keys:
  "map (\<lambda>p. QueryEscape (fst p) @ ''='' @ QueryEscape (snd p)) (urlParams q endpoint key val) =
   map (\<lambda>p. fst p @ ''='' @ QueryEscape (snd p)) (urlParams q endpoint key val)"
proof (rule map_cong [OF refl])
  fix p assume "p \<in> set (urlParams q endpoint key val)"
  then have "fst p \<in> set (map fst (urlParams q endpoint key val))" by simp
  then have "fst p \<in> set sortedKeys" by (simp only: urlParams_keys set_filter) simp
  then show "QueryEscape (fst p) @ ''='' @ QueryEscape (snd p) = fst p @ ''='' @ QueryEscape (snd p)"
    by (simp add: QueryEscape_sortedKeys)
qed

text \<open>
  Claim C4. For every query, non-empty endpoint and non-nil base: when exactly one of the five
  selector fields is non-empty after trimming, \<open>BuildURL\<close> succeeds, and the query string of
  the URL, read back as \<open>url.ParseQuery\<close> reads it, holds exactly one selector parameter,
  that selector with its trimmed value, and FORMAT (TLE when the format is unset); whatever
  bytes the value has, none of them adds a parameter. When no selector field is non-empty it
  fails with the QueryError "missing selector ..."; when two or more are, with the QueryError
  "set exactly one of ...".
\<close>

theorem C4_selector_cardinality:
  assumes "endpoint \<noteq> []"
  shows "(activeSelectors q = [(k, v)] \<longrightarrow>
            BuildURL q (Some b) endpoint =
              Inr (b \<lparr>Path = ''/NORAD/elements/'' @ endpoint,
                      RawQuery = Encode (buildParams q endpoint k v)\<rparr>) \<and>
            parseQuery (Encode (buildParams q endpoint k v)) = Some (urlParams q endpoint k v) \<and>
            filter (\<lambda>p. fst p \<in> set selectorKeys) (urlParams q endpoint k v) = [(k, v)] \<and>
            (''FORMAT'', if FORMAT q = [] then ''TLE'' else FORMAT q)
              \<in> set (urlParams q endpoint k v) \<and>
            filter (\<lambda>k'. k' \<in> set selectorKeys) (map fst (buildParams q endpoint k v)) = [k] \<and>
            map_of (buildParams q endpoint k v) k = Some [v] \<and>
            map_of (buildParams q endpoint k v) ''FORMAT'' =
              Some [if FORMAT q = [] then ''TLE'' else FORMAT q]) \<and>
         (activeSelectors q = [] \<longrightarrow>
            BuildURL q (Some b) endpoint =
              Inl (QueryError ''missing selector (set one of CATNR/INTDES/GROUP/NAME/SPECIAL)'')) \<and>
         (length (activeSelectors q) \<ge> 2 \<longrightarrow>
            BuildURL q (Some b) endpoint =
              Inl (QueryError ''set exactly one of CATNR/INTDES/GROUP/NAME/SPECIAL''))"
proof (intro conjI impI)
  assume a: "activeSelectors q = [(k, v)]"
  then have s: "singleSelector q = Inr (k, v)" by (simp add: singleSelector_active)
  have key: "k \<in> set selectorKeys" using s by (rule singleSelector_key)
  show "BuildURL q (Some b) endpoint =
          Inr (b \<lparr>Path = ''/NORAD/elements/'' @ endpoint,
                  RawQuery = Encode (buildParams q endpoint k v)\<rparr>)"
    using assms s by (simp add: BuildURL_def)
  show "parseQuery (Encode (buildParams q endpoint k v)) = Some (urlParams q endpoint k v)"
    by (simp only: Encode_buildParams [OF key] parseQuery_escaped [OF urlParams_nonempty])
  show "filter (\<lambda>p. fst p \<in> set selectorKeys) (urlParams q endpoint k v) = [(k, v)]"
    by (rule urlParams_selector [OF key])
  show "(''FORMAT'', if FORMAT q = [] then ''TLE'' else FORMAT q) \<in> set (urlParams q endpoint k v)"
    by (rule urlParams_format [OF key])
  show "filter (\<lambda>k'. k' \<in> set selectorKeys) (map fst (buildParams q endpoint k v)) = [k]"
    by (rule keys_buildParams(1) [OF key])
  show "map_of (buildParams q endpoint k v) k = Some [v]"
    by (rule keys_buildParams(4) [OF key])
  show "map_of (buildParams q endpoint k v) ''FORMAT'' =
          Some [if FORMAT q = [] then ''TLE'' else FORMAT q]"
    using keys_buildParams(5) [OF key, of q endpoint v] by (simp add: FormatTLE_def)
next
  assume "activeSelectors q = []"
  then show "BuildURL q (Some b) endpoint =
      Inl (QueryError ''missing selector (set one of CATNR/INTDES/GROUP/NAME/SPECIAL)'')"
    using assms by (simp add: BuildURL_def singleSelector_active)
next
  assume "length (activeSelectors q) \<ge> 2"
  then obtain p p' ps where "activeSelectors q = p # p' # ps"
    by (cases "activeSelectors q"; cases "tl (activeSelectors q)") auto
  then show "BuildURL q (Some b) endpoint =
      Inl (QueryError ''set exactly one of CATNR/INTDES/GROUP/NAME/SPECIAL'')"
    using assms by (simp add: BuildURL_def singleSelector_active)
qed

theorem C4_selector_cardinality_witness:
  "''gp.php'' \<noteq> [] \<and>
   activeSelectors (emptyQuery\<lparr>NAME := '' x&CATNR=1 '', GROUP := ''  ''\<rparr>) = [(''NAME'', ''x&CATNR=1'')] \<and>
   BuildURL (emptyQuery\<lparr>NAME := '' x&CATNR=1 '', GROUP := ''  ''\<rparr>)
       (Some (originURL ''https://celestrak.org'')) ''gp.php'' =
     Inr ''https://celestrak.org/NORAD/elements/gp.php?FORMAT=TLE&NAME=x%26CATNR%3D1'' \<and>
   parseQuery ''FORMAT=TLE&NAME=x%26CATNR%3D1'' =
     Some [(''FORMAT'', ''TLE''), (''NAME'', ''x&CATNR=1'')] \<and>
   activeSelectors emptyQuery = [] \<and>
   BuildURL emptyQuery (Some (originURL ''https://celestrak.org'')) ''gp.php'' =
     Inl (QueryError ''missing selector (set one of CATNR/INTDES/GROUP/NAME/SPECIAL)'') \<and>
   length (activeSelectors (groupQuery\<lparr>CATNR := ''25544''\<rparr>)) \<ge> 2 \<and>
   BuildURL (groupQuery\<lparr>CATNR := ''25544''\<rparr>) (Some (originURL ''https://celestrak.org''))
       ''gp.php'' =
     Inl (QueryError ''set exactly one of CATNR/INTDES/GROUP/NAME/SPECIAL'')"
proof -
  let ?q = "emptyQuery\<lparr>NAME := '' x&CATNR=1 '', GROUP := ''  ''\<rparr>"
  let ?b = "originURL ''https://celestrak.org''"
  have e: "''gp.php'' \<noteq> []" by simp
  have a1: "activeSelectors ?q = [(''NAME'', ''x&CATNR=1'')]" by code_simp
  have a0: "activeSelectors emptyQuery = []" by code_simp
  have a2: "length (activeSelectors (groupQuery\<lparr>CATNR := ''25544''\<rparr>)) \<ge> 2" by code_simp
  have r: "Encode (buildParams ?q ''gp.php'' ''NAME'' ''x&CATNR=1'') = ''FORMAT=TLE&NAME=x%26CATNR%3D1''"
    by code_simp
  have u: "urlParams ?q ''gp.php'' ''NAME'' ''x&CATNR=1'' =
             [(''FORMAT'', ''TLE''), (''NAME'', ''x&CATNR=1'')]"
    by code_simp
  have o: "?b \<lparr>Path = ''/NORAD/elements/'' @ ''gp.php'', RawQuery = ''FORMAT=TLE&NAME=x%26CATNR%3D1''\<rparr> =
           ''https://celestrak.org/NORAD/elements/gp.php?FORMAT=TLE&NAME=x%26CATNR%3D1''"
    by code_simp
  from C4_selector_cardinality [OF e, of ?q "''NAME''" "''x&CATNR=1''" ?b] a1
  have 1: "BuildURL ?q (Some ?b) ''gp.php'' =
     Inr ''https://celestrak.org/NORAD/elements/gp.php?FORMAT=TLE&NAME=x%26CATNR%3D1''"
    and pq: "parseQuery ''FORMAT=TLE&NAME=x%26CATNR%3D1'' =
     Some [(''FORMAT'', ''TLE''), (''NAME'', ''x&CATNR=1'')]"
    unfolding r u o by blast+
  from C4_selector_cardinality [OF e, of emptyQuery] a0
  have 2: "BuildURL emptyQuery (Some ?b) ''gp.php'' =
     Inl (QueryError ''missing selector (set one of CATNR/INTDES/GROUP/NAME/SPECIAL)'')"
    by blast
  from C4_selector_cardinality [OF e, of "groupQuery\<lparr>CATNR := ''25544''\<rparr>"] a2
  have 3: "BuildURL (groupQuery\<lparr>CATNR := ''25544''\<rparr>) (Some ?b) ''gp.php'' =
     Inl (QueryError ''set exactly one of CATNR/INTDES/GROUP/NAME/SPECIAL'')"
    by blast
  from e a1 a0 a2 1 pq 2 3 show ?thesis by blast
qed

text \<open>
  Claim C3, as the code has it. For every query with a valid selector and every non-empty
  endpoint, the parameters of the URL that \<open>BuildURL\<close> produces are in ascending byte order
  of their keys, not in the order of insertion: they are those of BSTAR, CATNR, DOCKED, FORMAT,
  GROUP, INTDES, MOVERS, NAME, OLDEST, SHOW-OPS, SPECIAL, in this order, that are the selector
  of the query, FORMAT, or, for the table endpoint, a flag that is set; each is written as
  key, \<open>=\<close>, escaped value, and they are joined by \<open>&\<close>.
\<close>

theorem C3_key_order:
  assumes "singleSelector q = Inr (key, val)" and "endpoint \<noteq> []"
  shows "BuildURL q (Some b) endpoint =
           Inr (b \<lparr>Path = ''/NORAD/elements/'' @ endpoint,
                   RawQuery = joinAmp (map (\<lambda>p. fst p @ ''='' @ QueryEscape (snd p))
                                         (urlParams q endpoint key val))\<rparr>) \<and>
         parseQuery (joinAmp (map (\<lambda>p. fst p @ ''='' @ QueryEscape (snd p))
                                (urlParams q endpoint key val))) =
           Some (urlParams q endpoint key val) \<and>
         map fst (urlParams q endpoint key val) = filter (paramPresent q endpoint key) sortedKeys \<and>
         sortedKeys = [''BSTAR'', ''CATNR'', ''DOCKED'', ''FORMAT'', ''GROUP'', ''INTDES'',
                       ''MOVERS'', ''NAME'', ''OLDEST'', ''SHOW-OPS'', ''SPECIAL''] \<and>
         sorted sortedKeys \<and> distinct sortedKeys"
proof -
  have k: "key \<in> set selectorKeys" using assms(1) by (rule singleSelector_key)
  have e: "Encode (buildParams q endpoint key val) =
             joinAmp (map (\<lambda>p. fst p @ ''='' @ QueryEscape (snd p)) (urlParams q endpoint key val))"
    by (simp only: Encode_buildParams [OF k] urlParams_raw_keys)
  have 1: "BuildURL q (Some b) endpoint =
           Inr (b \<lparr>Path = ''/NORAD/elements/'' @ endpoint,
                   RawQuery = joinAmp (map (\<lambda>p. fst p @ ''='' @ QueryEscape (snd p))
                                         (urlParams q endpoint key val))\<rparr>)"
    using assms by (simp add: BuildURL_def e)
  have 2: "parseQuery (joinAmp (map (\<lambda>p. fst p @ ''='' @ QueryEscape (snd p))
                                (urlParams q endpoint key val))) =
           Some (urlParams q endpoint key val)"
    using parseQuery_escaped [OF urlParams_nonempty, of q endpoint key val]
    by (simp only: urlParams_raw_keys)
  show ?thesis
    using 1 2 sorted_sortedKeys by (simp add: urlParams_keys) (simp add: sortedKeys_def)
qed

theorem C3_key_order_witness:
  "singleSelector (groupQuery\<lparr>TableFlags := noFlags\<lparr>ShowOps := True, BSTAR := True\<rparr>\<rparr>) =
     Inr (''GROUP'', ''STATIONS'') \<and> ''table.php'' \<noteq> [] \<and>
   BuildURL (groupQuery\<lparr>TableFlags := noFlags\<lparr>ShowOps := True, BSTAR := True\<rparr>\<rparr>)
       (Some (originURL ''https://celestrak.org'')) ''table.php'' =
     Inr ''https://celestrak.org/NORAD/elements/table.php?BSTAR=1&FORMAT=TLE&GROUP=STATIONS&SHOW-OPS=1'' \<and>
   parseQuery ''BSTAR=1&FORMAT=TLE&GROUP=STATIONS&SHOW-OPS=1'' =
     Some [(''BSTAR'', ''1''), (''FORMAT'', ''TLE''), (''GROUP'', ''STATIONS''), (''SHOW-OPS'', ''1'')]"
proof -
  let ?q = "groupQuery\<lparr>TableFlags := noFlags\<lparr>ShowOps := True, BSTAR := True\<rparr>\<rparr>"
  have s: "singleSelector ?q = Inr (''GROUP'', ''STATIONS'')" by code_simp
  have e: "''table.php'' \<noteq> []" by simp
  have u: "urlParams ?q ''table.php'' ''GROUP'' ''STATIONS'' =
             [(''BSTAR'', ''1''), (''FORMAT'', ''TLE''), (''GROUP'', ''STATIONS''), (''SHOW-OPS'', ''1'')]"
    by code_simp
  have j: "joinAmp (map (\<lambda>p. fst p @ ''='' @ QueryEscape (snd p))
             [(''BSTAR'', ''1''), (''FORMAT'', ''TLE''), (''GROUP'', ''STATIONS''), (''SHOW-OPS'', ''1'')]) =
           ''BSTAR=1&FORMAT=TLE&GROUP=STATIONS&SHOW-OPS=1''"
    by code_simp
  have o: "originURL ''https://celestrak.org''
             \<lparr>Path = ''/NORAD/elements/'' @ ''table.php'',
              RawQuery = ''BSTAR=1&FORMAT=TLE&GROUP=STATIONS&SHOW-OPS=1''\<rparr> =
           ''https://celestrak.org/NORAD/elements/table.php?BSTAR=1&FORMAT=TLE&GROUP=STATIONS&SHOW-OPS=1''"
    by code_simp
  from C3_key_order [OF s e, of "originURL ''https://celestrak.org''"] s e
  show ?thesis unfolding u j o by blast
qed

text \<open>
  The claim as the specification words it, with the selector first and FORMAT second, fails
  for a query by group: the URL has FORMAT first.
\<close>

theorem C3_insertion_order_counterexample:
  "singleSelector groupQuery = Inr (''GROUP'', ''STATIONS'') \<and>
   BuildURL groupQuery (Some (originURL ''https://celestrak.org'')) ''gp.php'' =
     Inr ''https://celestrak.org/NORAD/elements/gp.php?FORMAT=TLE&GROUP=STATIONS'' \<and>
   originURL ''https://celestrak.org''
     \<lparr>Path = ''/NORAD/elements/gp.php'',
      RawQuery = EncodeInsertionOrder (buildParams groupQuery ''gp.php'' ''GROUP'' ''STATIONS'')\<rparr> =
     ''https://celestrak.org/NORAD/elements/gp.php?GROUP=STATIONS&FORMAT=TLE'' \<and>
   BuildURL groupQuery (Some (originURL ''https://celestrak.org'')) ''gp.php'' \<noteq>
     Inr (originURL ''https://celestrak.org''
            \<lparr>Path = ''/NORAD/elements/gp.php'',
             RawQuery = EncodeInsertionOrder (buildParams groupQuery ''gp.php'' ''GROUP'' ''STATIONS'')\<rparr>)"
  by code_simp

section \<open>One attempt: what \<open>fetchOnce\<close> returns and what it does\<close>

lemma fetchOnce_no_loop_events:
  "list_all (\<lambda>e. \<not> isLoopEvent e) (snd (fetchOnce c env ctx q endpoint))"
  by (simp add: fetchOnce_def Let_def split: option.splits sum.splits prod.splits)

lemma fetchOnce_304:
  assumes "receives c env ctx q endpoint resp" and "BuildURL q (baseURL c) endpoint = Inr u"
    and "StatusCode resp = 304"
  shows "fetchOnce c env ctx q endpoint =
           (if cache c \<and> snd (snd (cacheGet env)) then Inr (fst (cacheGet env))
            else Inl (ErrorResponse (Some resp) ''304 Not Modified but no cached body available''),
            requestEvents c env u)"
  using assms
  by (auto simp: fetchOnce_def receives_def Let_def requestEvents_def requestOf_def
           split: option.splits prod.splits)

lemma fetchOnce_non2xx:
  assumes "receives c env ctx q endpoint resp" and "BuildURL q (baseURL c) endpoint = Inr u"
    and "StatusCode resp \<noteq> 304" and "StatusCode resp < 200 \<or> StatusCode resp > 299"
  shows "fetchOnce c env ctx q endpoint =
           (Inl (ErrorResponse (Some resp)
                   (if TrimSpace (take 8192 (Body resp)) = [] then Status resp
                    else TrimSpace (take 8192 (Body resp)))),
            requestEvents c env u)"
  using assms
  by (auto simp: fetchOnce_def receives_def Let_def requestEvents_def requestOf_def readAllLimit_def
           split: option.splits prod.splits)

lemma fetchOnce_2xx:
  assumes "receives c env ctx q endpoint resp" and "BuildURL q (baseURL c) endpoint = Inr u"
    and "200 \<le> StatusCode resp" and "StatusCode resp \<le> 299"
  shows "fetchOnce c env ctx q endpoint =
           (if length (Body resp) < maxResponseSize \<and> BodyFailure resp \<noteq> None then
              (Inl (Errorf ''read response'' (Some (ReadErr (the (BodyFailure resp))))),
               requestEvents c env u)
            else if length (Body resp) > maxResponseSize then
              (Inl (ErrorResponse (Some resp)
                      (''response too large (exceeds '' @ showInt (int maxResponseSize) @ '' bytes)'')),
               requestEvents c env u)
            else if Body resp = [] then
              (Inl (ErrorResponse (Some resp) ''empty response body''), requestEvents c env u)
            else
              (Inr (Body resp),
               requestEvents c env u @
                 (if cache c then [CachePut u (Body resp) (TrimSpace (ETag resp))] else [])))"
  using assms
  by (auto simp: fetchOnce_def receives_def Let_def requestEvents_def requestOf_def readAllLimit_def
                 min_def
           split: option.splits prod.splits)

lemma maxResponseSize_pos: "0 < maxResponseSize"
  by (simp add: maxResponseSize_def)

lemma receives_url:
  assumes "receives c env ctx q endpoint resp"
  obtains u where "BuildURL q (baseURL c) endpoint = Inr u"
  using assms by (cases "BuildURL q (baseURL c) endpoint") (auto simp: receives_def)

lemma showInt_maxResponseSize: "showInt (int maxResponseSize) = ''104857600''"
  by (simp add: showInt_def maxResponseSize_def digits.simps)

lemma fetchOnce_cases:
  obtains
    (early) "snd (fetchOnce c env ctx q endpoint) = []"
  | (norequest) u where "BuildURL q (baseURL c) endpoint = Inr u"
      and "snd (fetchOnce c env ctx q endpoint) = (if cache c then [CacheGet u] else [])"
  | (transport) u e where "BuildURL q (baseURL c) endpoint = Inr u"
      and "fetchOnce c env ctx q endpoint = (Inl e, requestEvents c env u)"
  | (response) u resp where "BuildURL q (baseURL c) endpoint = Inr u"
      and "receives c env ctx q endpoint resp"
proof (cases ctx)
  case None
  then have "snd (fetchOnce c env ctx q endpoint) = []" by (simp add: fetchOnce_def)
  then show ?thesis by (rule early)
next
  case (Some x)
  note ctx = this
  show ?thesis
  proof (cases "ctxErrOnce env")
    case (Some e)
    with ctx have "snd (fetchOnce c env ctx q endpoint) = []" by (simp add: fetchOnce_def)
    then show ?thesis by (rule early)
  next
    case None
    note ce = this
    show ?thesis
    proof (cases "BuildURL q (baseURL c) endpoint")
      case (Inl err)
      with ctx ce have "snd (fetchOnce c env ctx q endpoint) = []" by (simp add: fetchOnce_def)
      then show ?thesis by (rule early)
    next
      case (Inr u)
      note u = this
      show ?thesis
      proof (cases "newRequestErr env")
        case (Some m)
        with ctx ce u
        have "snd (fetchOnce c env ctx q endpoint) = (if cache c then [CacheGet u] else [])"
          by (simp add: fetchOnce_def Let_def split: prod.splits)
        with u show ?thesis by (rule norequest)
      next
        case None
        note nr = this
        show ?thesis
        proof (cases "doResult env")
          case (Inl m)
          with ctx ce u nr
          have "\<exists>e. fetchOnce c env ctx q endpoint = (Inl e, requestEvents c env u)"
            by (auto simp: fetchOnce_def Let_def requestEvents_def requestOf_def
                     split: prod.splits option.splits)
          with u show ?thesis using transport by blast
        next
          case (Inr resp)
          with ctx ce u nr have "receives c env ctx q endpoint resp"
            by (simp add: receives_def)
          with u show ?thesis by (rule response)
        qed
      qed
    qed
  qed
qed

lemma no_put_requestEvents: "\<not> list_ex isPut (requestEvents c env u)"
  by (simp add: requestEvents_def)

lemma fetchOnce_put_only_after_success:
  assumes put: "list_ex isPut (snd (fetchOnce c env ctx q endpoint))"
  shows "\<exists>resp body. receives c env ctx q endpoint resp \<and> 200 \<le> StatusCode resp \<and>
           StatusCode resp \<le> 299 \<and> fst (fetchOnce c env ctx q endpoint) = Inr body"
proof (cases rule: fetchOnce_cases [of c env ctx q endpoint])
  case early
  with put show ?thesis by simp
next
  case (norequest u)
  with put show ?thesis by (simp split: if_splits)
next
  case (transport u e)
  with put show ?thesis by (simp add: no_put_requestEvents)
next
  case (response u resp)
  note r = response(2) and u = response(1)
  show ?thesis
  proof (cases "StatusCode resp = 304")
    case True
    from put show ?thesis
      by (simp add: fetchOnce_304 [OF r u True] no_put_requestEvents)
  next
    case n304: False
    show ?thesis
    proof (cases "StatusCode resp < 200 \<or> StatusCode resp > 299")
      case True
      from put show ?thesis
        by (simp add: fetchOnce_non2xx [OF r u n304 True] no_put_requestEvents)
    next
      case False
      then have s: "200 \<le> StatusCode resp" "StatusCode resp \<le> 299" by simp_all
      from put have "\<exists>body. fst (fetchOnce c env ctx q endpoint) = Inr body"
        unfolding fetchOnce_2xx [OF r u s]
        by (simp add: no_put_requestEvents split: if_splits)
      with r s show ?thesis by blast
    qed
  qed
qed

lemma take2_requestEvents:
  "cache c \<Longrightarrow> take 2 (requestEvents c env u @ evs) = [CacheGet u, HttpDo (requestOf c env u)]"
  by (simp add: requestEvents_def)

lemma fetchOnce_get_before_request:
  assumes c: "cache c" and req: "list_ex isRequest (snd (fetchOnce c env ctx q endpoint))"
  shows "\<exists>u r. BuildURL q (baseURL c) endpoint = Inr u \<and>
           take 2 (snd (fetchOnce c env ctx q endpoint)) = [CacheGet u, HttpDo r]"
proof (cases rule: fetchOnce_cases [of c env ctx q endpoint])
  case early
  with req show ?thesis by simp
next
  case (norequest u)
  with req show ?thesis by (simp split: if_splits)
next
  case (transport u e)
  then show ?thesis using take2_requestEvents [OF c, of env u "[]"] by simp
next
  case (response u resp)
  note r = response(2) and u = response(1)
  have "\<exists>evs. snd (fetchOnce c env ctx q endpoint) = requestEvents c env u @ evs"
  proof (cases "StatusCode resp = 304")
    case True
    show ?thesis by (simp add: fetchOnce_304 [OF r u True])
  next
    case n304: False
    show ?thesis
    proof (cases "StatusCode resp < 200 \<or> StatusCode resp > 299")
      case True
      show ?thesis by (simp add: fetchOnce_non2xx [OF r u n304 True])
    next
      case False
      then have s: "200 \<le> StatusCode resp" "StatusCode resp \<le> 299" by simp_all
      show ?thesis unfolding fetchOnce_2xx [OF r u s] by simp
    qed
  qed
  then obtain evs where "snd (fetchOnce c env ctx q endpoint) = requestEvents c env u @ evs" ..
  with u show ?thesis using take2_requestEvents [OF c, of env u evs] by simp
qed

lemma catnr_url:
  "BuildURL catnrQuery (baseURL NewClient) ''gp.php'' =
     Inr ''https://celestrak.org/NORAD/elements/gp.php?CATNR=25544&FORMAT=JSON''"
  by code_simp

lemma catnr_url_cache:
  "BuildURL catnrQuery (baseURL (WithCache NewClient)) ''gp.php'' =
     Inr ''https://celestrak.org/NORAD/elements/gp.php?CATNR=25544&FORMAT=JSON''"
  by code_simp

lemma receives_answering:
  "receives NewClient (answering resp) (Some Ctx) catnrQuery ''gp.php'' resp"
  by (simp add: receives_def answering_def refusing_def catnr_url)

lemma receives_answering_cache:
  "receives (WithCache NewClient) (answering resp) (Some Ctx) catnrQuery ''gp.php'' resp"
  by (simp add: receives_def answering_def refusing_def catnr_url_cache)

lemma receives_cachedAnswering:
  "receives (WithCache NewClient) (cachedAnswering resp) (Some Ctx) catnrQuery ''gp.php'' resp"
  by (simp add: receives_def cachedAnswering_def refusing_def catnr_url_cache)

lemma small_body:
  "length (Body (response 200 ''200 OK'' t ''[{}]'')) < maxResponseSize"
  "\<not> length (Body (response 200 ''200 OK'' t ''[{}]'')) > maxResponseSize"
  "Body (response 200 ''200 OK'' t ''[{}]'') = ''[{}]''"
  "BodyFailure (response 200 ''200 OK'' t ''[{}]'') = None"
  "ETag (response 200 ''200 OK'' t ''[{}]'') = t"
  "200 \<le> StatusCode (response 200 ''200 OK'' t ''[{}]'')"
  "StatusCode (response 200 ''200 OK'' t ''[{}]'') \<le> 299"
  "\<not> maxResponseSize < Suc (Suc (Suc (Suc 0)))"
  by (simp_all add: response_def maxResponseSize_def)

text \<open>
  Claim C7. For every attempt that receives a response whose status is outside 200..299 and is
  not 304, \<open>fetchOnce\<close> returns an ErrorResponse that carries the response and, as message,
  the first at most 8192 bytes of the body with white space trimmed, or the status text when
  that is empty; and \<open>shouldRetry\<close> accepts this error exactly when the status is 500 or
  more.
\<close>

theorem C7_non2xx:
  assumes "receives c env ctx q endpoint resp"
    and "StatusCode resp \<noteq> 304"
    and "StatusCode resp < 200 \<or> StatusCode resp > 299"
  shows "\<exists>e. fst (fetchOnce c env ctx q endpoint) = Inl e \<and>
             e = ErrorResponse (Some resp)
                   (if TrimSpace (take 8192 (Body resp)) = [] then Status resp
                    else TrimSpace (take 8192 (Body resp))) \<and>
             shouldRetry (Some e) = (StatusCode resp \<ge> 500)"
proof -
  from assms(1) obtain u where u: "BuildURL q (baseURL c) endpoint = Inr u"
    by (rule receives_url)
  show ?thesis
    by (simp add: fetchOnce_non2xx [OF assms(1) u assms(2,3)] IsServerError_def)
qed

theorem C7_non2xx_witness:
  "receives NewClient (answering (response 503 ''503 Service Unavailable'' [] ''  try later  ''))
     (Some Ctx) catnrQuery ''gp.php'' (response 503 ''503 Service Unavailable'' [] ''  try later  '') \<and>
   fst (fetchOnce NewClient (answering (response 503 ''503 Service Unavailable'' [] ''  try later  ''))
          (Some Ctx) catnrQuery ''gp.php'') =
     Inl (ErrorResponse (Some (response 503 ''503 Service Unavailable'' [] ''  try later  ''))
            ''try later'') \<and>
   shouldRetry (Some (ErrorResponse
      (Some (response 503 ''503 Service Unavailable'' [] ''  try later  '')) ''try later''))"
proof -
  let ?r = "response 503 ''503 Service Unavailable'' [] ''  try later  ''"
  have r: "receives NewClient (answering ?r) (Some Ctx) catnrQuery ''gp.php'' ?r"
    by (rule receives_answering)
  have s: "StatusCode ?r \<noteq> 304" "StatusCode ?r < 200 \<or> StatusCode ?r > 299" "StatusCode ?r \<ge> 500"
    by (simp_all add: response_def)
  have t: "TrimSpace (take 8192 (Body ?r)) = ''try later''" by code_simp
  from C7_non2xx [OF r s(1,2)] r s(3) show ?thesis
    unfolding t by auto
qed

text \<open>
  Claim C8. For every attempt that receives a 304 response: when a cache is configured and its
  lookup before the request found an entry, \<open>fetchOnce\<close> succeeds with the cached bytes as
  they are and writes nothing to the cache; otherwise it fails with an ErrorResponse, which
  \<open>shouldRetry\<close> rejects.
\<close>

theorem C8_not_modified:
  assumes "receives c env ctx q endpoint resp" and "StatusCode resp = 304"
  shows "(cache c \<and> snd (snd (cacheGet env)) \<longrightarrow>
            fst (fetchOnce c env ctx q endpoint) = Inr (fst (cacheGet env)) \<and>
            list_all (\<lambda>ev. \<not> isPut ev) (snd (fetchOnce c env ctx q endpoint))) \<and>
         (\<not> (cache c \<and> snd (snd (cacheGet env))) \<longrightarrow>
            (\<exists>e. fst (fetchOnce c env ctx q endpoint) = Inl e \<and>
                  e = ErrorResponse (Some resp) ''304 Not Modified but no cached body available'' \<and>
                  \<not> shouldRetry (Some e)))"
proof -
  from assms(1) obtain u where u: "BuildURL q (baseURL c) endpoint = Inr u"
    by (rule receives_url)
  show ?thesis
    using assms(2)
    by (simp add: fetchOnce_304 [OF assms(1) u assms(2)] IsServerError_def requestEvents_def)
qed

theorem C8_not_modified_witness:
  "receives (WithCache NewClient) (cachedAnswering (response 304 ''304 Not Modified'' [] []))
     (Some Ctx) catnrQuery ''gp.php'' (response 304 ''304 Not Modified'' [] []) \<and>
   fetchOnce (WithCache NewClient) (cachedAnswering (response 304 ''304 Not Modified'' [] []))
       (Some Ctx) catnrQuery ''gp.php'' =
     (Inr ''1 25544U'',
      [CacheGet ''https://celestrak.org/NORAD/elements/gp.php?CATNR=25544&FORMAT=JSON'',
       HttpDo \<lparr>reqURL = ''https://celestrak.org/NORAD/elements/gp.php?CATNR=25544&FORMAT=JSON'',
               reqUserAgent = Some ''celestrak-go/0.0.1'', reqIfNoneMatch = Some ''W/abc''\<rparr>]) \<and>
   receives NewClient (answering (response 304 ''304 Not Modified'' [] []))
     (Some Ctx) catnrQuery ''gp.php'' (response 304 ''304 Not Modified'' [] []) \<and>
   fst (fetchOnce NewClient (answering (response 304 ''304 Not Modified'' [] []))
          (Some Ctx) catnrQuery ''gp.php'') =
     Inl (ErrorResponse (Some (response 304 ''304 Not Modified'' [] []))
            ''304 Not Modified but no cached body available'')"
proof -
  let ?r = "response 304 ''304 Not Modified'' [] []"
  have r1: "receives (WithCache NewClient) (cachedAnswering ?r) (Some Ctx) catnrQuery ''gp.php'' ?r"
    by (rule receives_cachedAnswering)
  have r2: "receives NewClient (answering ?r) (Some Ctx) catnrQuery ''gp.php'' ?r"
    by (rule receives_answering)
  have s: "StatusCode ?r = 304" by (simp add: response_def)
  have c1: "cache (WithCache NewClient) \<and> snd (snd (cacheGet (cachedAnswering ?r)))"
    by (simp add: WithCache_def cachedAnswering_def refusing_def)
  have c2: "\<not> (cache NewClient \<and> snd (snd (cacheGet (answering ?r))))"
    by (simp add: NewClient_def)
  have g: "fst (cacheGet (cachedAnswering ?r)) = ''1 25544U''"
    by (simp add: cachedAnswering_def refusing_def)
  have ev: "snd (fetchOnce (WithCache NewClient) (cachedAnswering ?r) (Some Ctx) catnrQuery ''gp.php'') =
      [CacheGet ''https://celestrak.org/NORAD/elements/gp.php?CATNR=25544&FORMAT=JSON'',
       HttpDo \<lparr>reqURL = ''https://celestrak.org/NORAD/elements/gp.php?CATNR=25544&FORMAT=JSON'',
               reqUserAgent = Some ''celestrak-go/0.0.1'', reqIfNoneMatch = Some ''W/abc''\<rparr>]"
    by code_simp
  from C8_not_modified [OF r1 s] c1 g
  have 1: "fst (fetchOnce (WithCache NewClient) (cachedAnswering ?r) (Some Ctx) catnrQuery ''gp.php'') =
             Inr ''1 25544U''"
    by simp
  from C8_not_modified [OF r2 s] c2
  have 2: "fst (fetchOnce NewClient (answering ?r) (Some Ctx) catnrQuery ''gp.php'') =
     Inl (ErrorResponse (Some ?r) ''304 Not Modified but no cached body available'')"
    by blast
  from 1 ev have 3: "fetchOnce (WithCache NewClient) (cachedAnswering ?r) (Some Ctx) catnrQuery ''gp.php'' =
     (Inr ''1 25544U'',
      [CacheGet ''https://celestrak.org/NORAD/elements/gp.php?CATNR=25544&FORMAT=JSON'',
       HttpDo \<lparr>reqURL = ''https://celestrak.org/NORAD/elements/gp.php?CATNR=25544&FORMAT=JSON'',
               reqUserAgent = Some ''celestrak-go/0.0.1'', reqIfNoneMatch = Some ''W/abc''\<rparr>])"
    by (simp add: prod_eq_iff)
  from r1 r2 2 3 show ?thesis by blast
qed

text \<open>
  Claim C9. For every attempt that receives a response with a status in 200..299: when the
  body is longer than the cap of 100 MiB, \<open>fetchOnce\<close> fails with the ErrorResponse
  "response too large (exceeds 104857600 bytes)"; when the body has exactly the size of the
  cap and ends there, it succeeds with the whole body; and whenever it succeeds, what it
  returns is the whole body, never a part of it.
\<close>

theorem C9_size_cap:
  assumes "receives c env ctx q endpoint resp"
    and "200 \<le> StatusCode resp" and "StatusCode resp \<le> 299"
  shows "(length (Body resp) > maxResponseSize \<longrightarrow>
            fst (fetchOnce c env ctx q endpoint) =
              Inl (ErrorResponse (Some resp) ''response too large (exceeds 104857600 bytes)'')) \<and>
         (length (Body resp) = maxResponseSize \<and> BodyFailure resp = None \<longrightarrow>
            fst (fetchOnce c env ctx q endpoint) = Inr (Body resp)) \<and>
         (\<forall>data. fst (fetchOnce c env ctx q endpoint) = Inr data \<longrightarrow> data = Body resp) \<and>
         maxResponseSize = 100 * 2 ^ 20"
proof -
  from assms(1) obtain u where u: "BuildURL q (baseURL c) endpoint = Inr u"
    by (rule receives_url)
  note eq = fetchOnce_2xx [OF assms(1) u assms(2,3)]
  have 1: "length (Body resp) > maxResponseSize \<longrightarrow>
            fst (fetchOnce c env ctx q endpoint) =
              Inl (ErrorResponse (Some resp) ''response too large (exceeds 104857600 bytes)'')"
    by (simp add: eq showInt_maxResponseSize)
  have 2: "length (Body resp) = maxResponseSize \<and> BodyFailure resp = None \<longrightarrow>
            fst (fetchOnce c env ctx q endpoint) = Inr (Body resp)"
    using maxResponseSize_pos by (auto simp: eq)
  have 3: "\<forall>data. fst (fetchOnce c env ctx q endpoint) = Inr data \<longrightarrow> data = Body resp"
    by (simp add: eq split: if_splits)
  have 4: "maxResponseSize = 100 * 2 ^ 20" by (simp add: maxResponseSize_def)
  from 1 2 3 4 show ?thesis by blast
qed

theorem C9_size_cap_witness:
  "receives NewClient
     (answering (response 200 ''200 OK'' [] (replicate (Suc maxResponseSize) (CHR ''x''))))
     (Some Ctx) catnrQuery ''gp.php''
     (response 200 ''200 OK'' [] (replicate (Suc maxResponseSize) (CHR ''x''))) \<and>
   fst (fetchOnce NewClient
          (answering (response 200 ''200 OK'' [] (replicate (Suc maxResponseSize) (CHR ''x''))))
          (Some Ctx) catnrQuery ''gp.php'') =
     Inl (ErrorResponse
            (Some (response 200 ''200 OK'' [] (replicate (Suc maxResponseSize) (CHR ''x''))))
            ''response too large (exceeds 104857600 bytes)'') \<and>
   receives NewClient
     (answering (response 200 ''200 OK'' [] (replicate maxResponseSize (CHR ''x''))))
     (Some Ctx) catnrQuery ''gp.php''
     (response 200 ''200 OK'' [] (replicate maxResponseSize (CHR ''x''))) \<and>
   fst (fetchOnce NewClient
          (answering (response 200 ''200 OK'' [] (replicate maxResponseSize (CHR ''x''))))
          (Some Ctx) catnrQuery ''gp.php'') =
     Inr (replicate maxResponseSize (CHR ''x''))"
proof -
  let ?big = "response 200 ''200 OK'' [] (replicate (Suc maxResponseSize) (CHR ''x''))"
  let ?cap = "response 200 ''200 OK'' [] (replicate maxResponseSize (CHR ''x''))"
  have r1: "receives NewClient (answering ?big) (Some Ctx) catnrQuery ''gp.php'' ?big"
    by (rule receives_answering)
  have r2: "receives NewClient (answering ?cap) (Some Ctx) catnrQuery ''gp.php'' ?cap"
    by (rule receives_answering)
  have s1: "200 \<le> StatusCode ?big" "StatusCode ?big \<le> 299" by (simp_all add: response_def)
  have s2: "200 \<le> StatusCode ?cap" "StatusCode ?cap \<le> 299" by (simp_all add: response_def)
  have b1: "length (Body ?big) > maxResponseSize" by (simp add: response_def)
  have b2: "length (Body ?cap) = maxResponseSize \<and> BodyFailure ?cap = None"
    by (simp add: response_def)
  have b3: "Body ?cap = replicate maxResponseSize (CHR ''x'')" by (simp add: response_def)
  from C9_size_cap [OF r1 s1] b1
  have 1: "fst (fetchOnce NewClient (answering ?big) (Some Ctx) catnrQuery ''gp.php'') =
             Inl (ErrorResponse (Some ?big) ''response too large (exceeds 104857600 bytes)'')"
    by blast
  from C9_size_cap [OF r2 s2] b2
  have "fst (fetchOnce NewClient (answering ?cap) (Some Ctx) catnrQuery ''gp.php'') = Inr (Body ?cap)"
    by blast
  then have 2: "fst (fetchOnce NewClient (answering ?cap) (Some Ctx) catnrQuery ''gp.php'') =
                  Inr (replicate maxResponseSize (CHR ''x''))"
    by (simp only: b3)
  from r1 r2 1 2 show ?thesis by blast
qed

text \<open>
  Claim C10, as the code has it. With a cache configured, an attempt that sends a request
  has read the cache entry of the URL just before; the cache is written only by an attempt
  that succeeds on a response with a status in 200..299 (a 304 never writes); and every such
  attempt writes, under the URL, the body and the trimmed ETag header, whether or not the
  response carries a validator: without one the entry is written with an empty token.
\<close>

theorem C10_cache_lifecycle:
  assumes "cache c"
  shows "(list_ex isRequest (snd (fetchOnce c env ctx q endpoint)) \<longrightarrow>
            (\<exists>u r. BuildURL q (baseURL c) endpoint = Inr u \<and>
                    take 2 (snd (fetchOnce c env ctx q endpoint)) = [CacheGet u, HttpDo r])) \<and>
         (list_ex isPut (snd (fetchOnce c env ctx q endpoint)) \<longrightarrow>
            (\<exists>resp body. receives c env ctx q endpoint resp \<and> 200 \<le> StatusCode resp \<and>
               StatusCode resp \<le> 299 \<and> fst (fetchOnce c env ctx q endpoint) = Inr body)) \<and>
         (\<forall>resp body. receives c env ctx q endpoint resp \<and> 200 \<le> StatusCode resp \<and>
               StatusCode resp \<le> 299 \<and> fst (fetchOnce c env ctx q endpoint) = Inr body \<longrightarrow>
            (\<exists>u. BuildURL q (baseURL c) endpoint = Inr u \<and>
                  snd (fetchOnce c env ctx q endpoint) =
                    [CacheGet u, HttpDo (requestOf c env u),
                     CachePut u body (TrimSpace (ETag resp))]))"
proof (intro conjI impI allI)
  assume "list_ex isRequest (snd (fetchOnce c env ctx q endpoint))"
  with assms show "\<exists>u r. BuildURL q (baseURL c) endpoint = Inr u \<and>
                    take 2 (snd (fetchOnce c env ctx q endpoint)) = [CacheGet u, HttpDo r]"
    by (rule fetchOnce_get_before_request)
next
  assume "list_ex isPut (snd (fetchOnce c env ctx q endpoint))"
  then show "\<exists>resp body. receives c env ctx q endpoint resp \<and> 200 \<le> StatusCode resp \<and>
               StatusCode resp \<le> 299 \<and> fst (fetchOnce c env ctx q endpoint) = Inr body"
    by (rule fetchOnce_put_only_after_success)
next
  fix resp body
  assume h: "receives c env ctx q endpoint resp \<and> 200 \<le> StatusCode resp \<and>
               StatusCode resp \<le> 299 \<and> fst (fetchOnce c env ctx q endpoint) = Inr body"
  then obtain u where u: "BuildURL q (baseURL c) endpoint = Inr u"
    using receives_url by blast
  from h have r: "receives c env ctx q endpoint resp" and s1: "200 \<le> StatusCode resp"
    and s2: "StatusCode resp \<le> 299" by simp_all
  note eq = fetchOnce_2xx [OF r u s1 s2]
  show "\<exists>u. BuildURL q (baseURL c) endpoint = Inr u \<and>
                  snd (fetchOnce c env ctx q endpoint) =
                    [CacheGet u, HttpDo (requestOf c env u),
                     CachePut u body (TrimSpace (ETag resp))]"
    using h u assms unfolding eq by (auto simp: requestEvents_def split: if_splits)
qed

theorem C10_cache_lifecycle_witness:
  "cache (WithCache NewClient) \<and>
   receives (WithCache NewClient) (cachedAnswering (response 200 ''200 OK'' '' W/def '' ''[{}]''))
     (Some Ctx) catnrQuery ''gp.php'' (response 200 ''200 OK'' '' W/def '' ''[{}]'') \<and>
   fetchOnce (WithCache NewClient) (cachedAnswering (response 200 ''200 OK'' '' W/def '' ''[{}]''))
       (Some Ctx) catnrQuery ''gp.php'' =
     (Inr ''[{}]'',
      [CacheGet ''https://celestrak.org/NORAD/elements/gp.php?CATNR=25544&FORMAT=JSON'',
       HttpDo \<lparr>reqURL = ''https://celestrak.org/NORAD/elements/gp.php?CATNR=25544&FORMAT=JSON'',
               reqUserAgent = Some ''celestrak-go/0.0.1'', reqIfNoneMatch = Some ''W/abc''\<rparr>,
       CachePut ''https://celestrak.org/NORAD/elements/gp.php?CATNR=25544&FORMAT=JSON''
         ''[{}]'' ''W/def''])"
proof -
  let ?r = "response 200 ''200 OK'' '' W/def '' ''[{}]''"
  let ?c = "WithCache NewClient"
  let ?e = "cachedAnswering ?r"
  have c: "cache ?c" by (simp add: WithCache_def)
  have r: "receives ?c ?e (Some Ctx) catnrQuery ''gp.php'' ?r"
    by (rule receives_cachedAnswering)
  have s: "200 \<le> StatusCode ?r \<and> StatusCode ?r \<le> 299" by (simp add: response_def)
  have r: "receives ?c ?e (Some Ctx) catnrQuery ''gp.php'' ?r"
    by (rule receives_cachedAnswering)
  have f: "fst (fetchOnce ?c ?e (Some Ctx) catnrQuery ''gp.php'') = Inr ''[{}]''"
    unfolding fetchOnce_2xx [OF r catnr_url_cache small_body(6,7)]
    by (simp add: small_body)
  have t: "TrimSpace (ETag ?r) = ''W/def''" by code_simp
  have q: "requestOf ?c ?e ''https://celestrak.org/NORAD/elements/gp.php?CATNR=25544&FORMAT=JSON'' =
      \<lparr>reqURL = ''https://celestrak.org/NORAD/elements/gp.php?CATNR=25544&FORMAT=JSON'',
               reqUserAgent = Some ''celestrak-go/0.0.1'', reqIfNoneMatch = Some ''W/abc''\<rparr>"
    by code_simp
  from C10_cache_lifecycle [OF c, of ?e "Some Ctx" catnrQuery "''gp.php''"] r s f
  have "\<exists>u. BuildURL catnrQuery (baseURL ?c) ''gp.php'' = Inr u \<and>
          snd (fetchOnce ?c ?e (Some Ctx) catnrQuery ''gp.php'') =
            [CacheGet u, HttpDo (requestOf ?c ?e u), CachePut u ''[{}]'' (TrimSpace (ETag ?r))]"
    by blast
  then have "snd (fetchOnce ?c ?e (Some Ctx) catnrQuery ''gp.php'') =
      [CacheGet ''https://celestrak.org/NORAD/elements/gp.php?CATNR=25544&FORMAT=JSON'',
       HttpDo \<lparr>reqURL = ''https://celestrak.org/NORAD/elements/gp.php?CATNR=25544&FORMAT=JSON'',
               reqUserAgent = Some ''celestrak-go/0.0.1'', reqIfNoneMatch = Some ''W/abc''\<rparr>,
       CachePut ''https://celestrak.org/NORAD/elements/gp.php?CATNR=25544&FORMAT=JSON''
         ''[{}]'' ''W/def'']"
    unfolding catnr_url_cache t by (auto simp: q)
  with f c r show ?thesis by (simp add: prod_eq_iff)
qed

text \<open>
  The claim as the specification words it, a successful response without a validator leaving
  the cache unwritten, fails on a 200 response with no ETag header: the entry is written.
\<close>

theorem C10_no_validator_counterexample:
  "ETag (response 200 ''200 OK'' [] ''[{}]'') = [] \<and>
   fetchOnce (WithCache NewClient) (answering (response 200 ''200 OK'' [] ''[{}]''))
       (Some Ctx) catnrQuery ''gp.php'' =
     (Inr ''[{}]'',
      [CacheGet ''https://celestrak.org/NORAD/elements/gp.php?CATNR=25544&FORMAT=JSON'',
       HttpDo \<lparr>reqURL = ''https://celestrak.org/NORAD/elements/gp.php?CATNR=25544&FORMAT=JSON'',
               reqUserAgent = Some ''celestrak-go/0.0.1'', reqIfNoneMatch = None\<rparr>,
       CachePut ''https://celestrak.org/NORAD/elements/gp.php?CATNR=25544&FORMAT=JSON''
         ''[{}]'' []])"
proof -
  let ?r = "response 200 ''200 OK'' [] ''[{}]''"
  have t: "TrimSpace [] = []" by code_simp
  have e: "requestEvents (WithCache NewClient) (answering ?r)
             ''https://celestrak.org/NORAD/elements/gp.php?CATNR=25544&FORMAT=JSON'' =
      [CacheGet ''https://celestrak.org/NORAD/elements/gp.php?CATNR=25544&FORMAT=JSON'',
       HttpDo \<lparr>reqURL = ''https://celestrak.org/NORAD/elements/gp.php?CATNR=25544&FORMAT=JSON'',
               reqUserAgent = Some ''celestrak-go/0.0.1'', reqIfNoneMatch = None\<rparr>]"
    by code_simp
  have c: "cache (WithCache NewClient)" by (simp add: WithCache_def)
  show ?thesis
    unfolding fetchOnce_2xx [OF receives_answering_cache catnr_url_cache small_body(6,7)]
    by (simp add: small_body t e c)
qed

section \<open>The retry loop\<close>

lemma fetch_loop_step:
  assumes "int k \<le> maxRetries c"
    and "retryableFailure c env (Some x) q endpoint k"
  shows "fetch_loop c env (Some x) q endpoint k (delayAt (retryDelay c) k) le =
           (case fetch_loop c env (Some x) q endpoint (Suc k) (delayAt (retryDelay c) (Suc k))
                   (lastErrAt c env (Some x) q endpoint (Suc k)) of
              (res, rest) \<Rightarrow> (res, iterEvents c env (Some x) q endpoint k @ rest))"
proof -
  obtain r evs where f: "fetchOnce c (env k) (Some x) q endpoint = (r, evs)"
    by (cases "fetchOnce c (env k) (Some x) q endpoint")
  with assms(2) obtain e where r: "r = Inl e" and sr: "shouldRetry (Some e)"
    by (cases r) (auto simp: retryableFailure_def)
  have d: "(if k > 0 then delayAt (retryDelay c) k * 2 else delayAt (retryDelay c) k) =
             delayAt (retryDelay c) (Suc k)"
    by (cases k) (simp_all add: delayAt_def)
  have l: "lastErrAt c env (Some x) q endpoint (Suc k) = Some e"
    by (simp add: lastErrAt_def f r)
  from assms(2) have c1: "ctxErrLoop (env k) = None"
    and c2: "k > 0 \<longrightarrow> waitDone (env k) = None"
    by (simp_all add: retryableFailure_def)
  obtain res rest where n: "fetch_loop c env (Some x) q endpoint (Suc k)
      (delayAt (retryDelay c) (Suc k)) (Some e) = (res, rest)"
    by (cases "fetch_loop c env (Some x) q endpoint (Suc k)
      (delayAt (retryDelay c) (Suc k)) (Some e)")
  show ?thesis
    apply (subst fetch_loop.simps)
    using assms(1) c1 c2 sr
    apply (auto simp add: f r d l n iterEvents_def Let_def simp del: shouldRetry.simps)
    done
qed

lemma fetch_reaches:
  assumes "int k \<le> maxRetries c + 1"
    and "\<forall>i<k. retryableFailure c env (Some x) q endpoint i"
  shows "fetch c env (Some x) q endpoint =
           (case fetch_loop c env (Some x) q endpoint k (delayAt (retryDelay c) k)
                   (lastErrAt c env (Some x) q endpoint k) of
              (res, rest) \<Rightarrow> (res, eventsBefore c env (Some x) q endpoint k @ rest))"
  using assms
proof (induction k)
  case 0
  show ?case by (simp add: fetch_def delayAt_def lastErrAt_def eventsBefore_def split: prod.splits)
next
  case (Suc k)
  then have ih: "fetch c env (Some x) q endpoint =
           (case fetch_loop c env (Some x) q endpoint k (delayAt (retryDelay c) k)
                   (lastErrAt c env (Some x) q endpoint k) of
              (res, rest) \<Rightarrow> (res, eventsBefore c env (Some x) q endpoint k @ rest))"
    by simp
  from Suc.prems have k: "int k \<le> maxRetries c" and f: "retryableFailure c env (Some x) q endpoint k"
    by simp_all
  show ?case
    unfolding ih fetch_loop_step [OF k f]
    by (simp add: eventsBefore_def split: prod.splits)
qed

lemma fetch_loop_exhausted:
  "\<not> int k \<le> maxRetries c \<Longrightarrow>
   fetch_loop c env ctx q endpoint k d le =
     (Return (Inl (Errorf (''max retries ('' @ showInt (maxRetries c) @ '') exceeded'') le)), [])"
  by (subst fetch_loop.simps) simp

lemma waitsOf_append: "waitsOf (xs @ ys) = waitsOf xs @ waitsOf ys"
  by (induction xs rule: waitsOf.induct) simp_all

lemma waitsOf_no_loop: "list_all (\<lambda>e. \<not> isLoopEvent e) evs \<Longrightarrow> waitsOf evs = []"
  by (induction evs rule: waitsOf.induct) simp_all

lemma countAttempts_no_loop: "list_all (\<lambda>e. \<not> isLoopEvent e) evs \<Longrightarrow> countAttempts evs = 0"
  by (induction evs) (auto simp: countAttempts_def)

lemma countAttempts_append: "countAttempts (xs @ ys) = countAttempts xs + countAttempts ys"
  by (simp add: countAttempts_def)

lemma countAttempts_iterEvents: "countAttempts (iterEvents c env ctx q endpoint i) = 1"
  using countAttempts_no_loop [OF fetchOnce_no_loop_events, of c "env i" ctx q endpoint]
  by (simp add: iterEvents_def countAttempts_def)

lemma waitsOf_iterEvents:
  "waitsOf (iterEvents c env ctx q endpoint i) = (if i > 0 then [delayAt (retryDelay c) i] else [])"
  using waitsOf_no_loop [OF fetchOnce_no_loop_events, of c "env i" ctx q endpoint]
  by (auto simp: iterEvents_def)

lemma eventsBefore_Suc:
  "eventsBefore c env ctx q endpoint (Suc k) =
     eventsBefore c env ctx q endpoint k @ iterEvents c env ctx q endpoint k"
  by (simp add: eventsBefore_def)

lemma countAttempts_eventsBefore: "countAttempts (eventsBefore c env ctx q endpoint k) = k"
proof (induction k)
  case 0
  show ?case by (simp add: eventsBefore_def countAttempts_def)
next
  case (Suc k)
  then show ?case
    by (simp add: eventsBefore_Suc countAttempts_append countAttempts_iterEvents)
qed

lemma waitsOf_eventsBefore:
  "waitsOf (eventsBefore c env ctx q endpoint (Suc k)) = map (\<lambda>i. retryDelay c * 2 ^ i) [0..<k]"
proof (induction k)
  case 0
  show ?case by (simp add: eventsBefore_def waitsOf_iterEvents)
next
  case (Suc k)
  have "waitsOf (eventsBefore c env ctx q endpoint (Suc (Suc k))) =
          waitsOf (eventsBefore c env ctx q endpoint (Suc k)) @
          waitsOf (iterEvents c env ctx q endpoint (Suc k))"
    by (simp only: eventsBefore_Suc [of _ _ _ _ _ "Suc k"] waitsOf_append)
  then show ?case
    by (simp add: Suc waitsOf_iterEvents delayAt_def)
qed

lemma sum_doubling: "sum_list (map (\<lambda>i. d * 2 ^ i) [0..<k]) = d * (2 ^ k - 1)" for d :: "64 word"
  by (induction k) (simp_all add: algebra_simps)

lemma fetchOnce_transportFails:
  assumes "transportFails e" and "BuildURL q (baseURL c) endpoint = Inr u"
  shows "fetchOnce c e (Some x) q endpoint =
           (Inl (Errorf ''request failed'' (Some (TransportErr (projl (doResult e))))),
            requestEvents c e u)"
  using assms
  by (cases "doResult e")
     (auto simp: fetchOnce_def transportFails_def Let_def requestEvents_def requestOf_def
           split: prod.splits)

lemma countRequests_requestEvents: "countRequests (requestEvents c e u) = 1"
  by (simp add: countRequests_def requestEvents_def)

lemma countRequests_append: "countRequests (xs @ ys) = countRequests xs + countRequests ys"
  by (simp add: countRequests_def)

lemma sum_doubling_int: "sum_list (map (\<lambda>i. a * 2 ^ i) [0..<k]) = a * (2 ^ k - 1)" for a :: int
  by (induction k) (simp_all add: algebra_simps)

text \<open>
  The durations are \<open>time.Duration\<close> values, and their products are those of the code,
  modulo \<open>2^64\<close>. As long as a product stays within the signed 64-bit range it is the
  product of the integers.
\<close>

lemma sint_delay_doubling:
  fixes d :: "64 word"
  assumes "- (2 ^ 63) \<le> sint d * 2 ^ i" and "sint d * 2 ^ i < 2 ^ 63"
  shows "sint (d * 2 ^ i) = sint d * 2 ^ i"
proof -
  have "d * 2 ^ i = word_of_int (sint d * 2 ^ i)" by simp
  then have "sint (d * 2 ^ i) = signed_take_bit 63 (sint d * 2 ^ i)"
    by (simp only: sint_sbintrunc') simp
  also have "\<dots> = sint d * 2 ^ i"
    using assms by (simp add: signed_take_bit_int_eq_self)
  finally show ?thesis .
qed

text \<open>
  When every attempt fails in the transport, \<open>fetch\<close> runs all its iterations; the arguments
  of the timer are the products of the code.
\<close>

lemma fetch_transport_failures:
  assumes ctx: "ctx \<noteq> None" and m: "0 \<le> maxRetries c"
    and url: "\<not> isl (BuildURL q (baseURL c) endpoint)"
    and fails: "\<forall>i \<le> nat (maxRetries c). transportFails (env i)"
  shows "fst (fetch c env ctx q endpoint) =
           Return (Inl (Errorf (''max retries ('' @ showInt (maxRetries c) @ '') exceeded'')
                    (Some (Errorf ''request failed''
                       (Some (TransportErr (projl (doResult (env (nat (maxRetries c))))))))))) \<and>
         countAttempts (snd (fetch c env ctx q endpoint)) = nat (maxRetries c) + 1 \<and>
         countRequests (snd (fetch c env ctx q endpoint)) = nat (maxRetries c) + 1 \<and>
         waitsOf (snd (fetch c env ctx q endpoint)) =
           map (\<lambda>i. retryDelay c * 2 ^ i) [0..<nat (maxRetries c)] \<and>
         sum_list (waitsOf (snd (fetch c env ctx q endpoint))) =
           retryDelay c * (2 ^ nat (maxRetries c) - 1)"
proof -
  from ctx obtain x where x: "ctx = Some x" by auto
  from url obtain u where u: "BuildURL q (baseURL c) endpoint = Inr u"
    by (cases "BuildURL q (baseURL c) endpoint") auto
  let ?m = "nat (maxRetries c)"
  have once: "fetchOnce c (env i) (Some x) q endpoint =
           (Inl (Errorf ''request failed'' (Some (TransportErr (projl (doResult (env i)))))),
            requestEvents c (env i) u)" if "i \<le> ?m" for i
    using fails that by (simp add: fetchOnce_transportFails [OF _ u])
  have rf: "\<forall>i<Suc ?m. retryableFailure c env (Some x) q endpoint i"
    using fails by (simp add: retryableFailure_def once transportFails_def)
  have k: "int (Suc ?m) \<le> maxRetries c + 1" using m by simp
  have ex: "\<not> int (Suc ?m) \<le> maxRetries c" using m by simp
  have le: "lastErrAt c env (Some x) q endpoint (Suc ?m) =
              Some (Errorf ''request failed'' (Some (TransportErr (projl (doResult (env ?m))))))"
    by (simp add: lastErrAt_def once)
  have f: "fetch c env ctx q endpoint =
             (Return (Inl (Errorf (''max retries ('' @ showInt (maxRetries c) @ '') exceeded'')
                    (Some (Errorf ''request failed''
                       (Some (TransportErr (projl (doResult (env ?m))))))))),
              eventsBefore c env (Some x) q endpoint (Suc ?m))"
    unfolding x fetch_reaches [OF k rf] fetch_loop_exhausted [OF ex] le by simp
  have cr: "countRequests (eventsBefore c env (Some x) q endpoint k) = k" if "k \<le> Suc ?m" for k
    using that
  proof (induction k)
    case 0
    show ?case by (simp add: eventsBefore_def countRequests_def)
  next
    case (Suc k)
    then have "k \<le> ?m" by simp
    then have "countRequests (iterEvents c env (Some x) q endpoint k) = 1"
      by (simp add: iterEvents_def once countRequests_def requestEvents_def)
    with Suc show ?case by (simp add: eventsBefore_Suc countRequests_append)
  qed
  show ?thesis
    unfolding f
    by (simp add: countAttempts_eventsBefore cr waitsOf_eventsBefore sum_doubling)
qed

text \<open>
  Claim C5, as the code has it. For every client with \<open>0 \<le> maxRetries = m\<close> below the
  largest \<open>int\<close> and \<open>retryDelay = d \<ge> 0\<close> such that the last wait \<open>d * 2^(m-1)\<close> fits
  in a \<open>time.Duration\<close>, when every attempt fails in the transport, \<open>fetch\<close> performs
  exactly \<open>m + 1\<close> attempts, each sending one request, waits \<open>d, 2d, 4d, ...\<close> before the
  attempts 2 to \<open>m + 1\<close>, in total \<open>d * (2^m - 1)\<close>, and then returns the error
  "max retries (m) exceeded" wrapping the error of the last attempt.
\<close>

theorem C5_retry_budget:
  assumes ctx: "ctx \<noteq> None"
    and m: "0 \<le> maxRetries c" and mb: "maxRetries c < 2 ^ 63 - 1"
    and d: "0 \<le> sint (retryDelay c)"
    and fit: "sint (retryDelay c) * 2 ^ (nat (maxRetries c) - 1) < 2 ^ 63"
    and url: "\<not> isl (BuildURL q (baseURL c) endpoint)"
    and fails: "\<forall>i \<le> nat (maxRetries c). transportFails (env i)"
  shows "fst (fetch c env ctx q endpoint) =
           Return (Inl (Errorf (''max retries ('' @ showInt (maxRetries c) @ '') exceeded'')
                    (Some (Errorf ''request failed''
                       (Some (TransportErr (projl (doResult (env (nat (maxRetries c))))))))))) \<and>
         countAttempts (snd (fetch c env ctx q endpoint)) = nat (maxRetries c) + 1 \<and>
         countRequests (snd (fetch c env ctx q endpoint)) = nat (maxRetries c) + 1 \<and>
         map sint (waitsOf (snd (fetch c env ctx q endpoint))) =
           map (\<lambda>i. sint (retryDelay c) * 2 ^ i) [0..<nat (maxRetries c)] \<and>
         sum_list (map sint (waitsOf (snd (fetch c env ctx q endpoint)))) =
           sint (retryDelay c) * (2 ^ nat (maxRetries c) - 1)"
proof -
  let ?m = "nat (maxRetries c)"
  let ?d = "retryDelay c"
  note w = fetch_transport_failures [OF ctx m url fails]
  have s: "sint (?d * 2 ^ i) = sint ?d * 2 ^ i" if "i < ?m" for i
  proof (rule sint_delay_doubling)
    have "0 \<le> sint ?d * 2 ^ i" using d by simp
    then show "- (2 ^ 63) \<le> sint ?d * 2 ^ i" by simp
    have "i \<le> ?m - 1" using that by simp
    then have "(2::int) ^ i \<le> 2 ^ (?m - 1)" by (simp add: power_increasing)
    then have "sint ?d * 2 ^ i \<le> sint ?d * 2 ^ (?m - 1)" using d by (rule mult_left_mono)
    with fit show "sint ?d * 2 ^ i < 2 ^ 63" by simp
  qed
  from w have w1: "fst (fetch c env ctx q endpoint) =
           Return (Inl (Errorf (''max retries ('' @ showInt (maxRetries c) @ '') exceeded'')
                    (Some (Errorf ''request failed''
                       (Some (TransportErr (projl (doResult (env (nat (maxRetries c)))))))))))"
    and w2: "countAttempts (snd (fetch c env ctx q endpoint)) = nat (maxRetries c) + 1"
    and w3: "countRequests (snd (fetch c env ctx q endpoint)) = nat (maxRetries c) + 1"
    and w4: "waitsOf (snd (fetch c env ctx q endpoint)) = map (\<lambda>i. ?d * 2 ^ i) [0..<?m]"
    by blast+
  have ws: "map sint (waitsOf (snd (fetch c env ctx q endpoint))) =
              map (\<lambda>i. sint ?d * 2 ^ i) [0..<?m]"
    unfolding w4 using s by simp
  have su: "sum_list (map sint (waitsOf (snd (fetch c env ctx q endpoint)))) =
              sint ?d * (2 ^ ?m - 1)"
    by (simp only: ws sum_doubling_int)
  from w1 w2 w3 ws su show ?thesis by blast
qed

theorem C5_retry_budget_witness:
  "Some Ctx \<noteq> None \<and> 0 \<le> maxRetries NewClient \<and> maxRetries NewClient < 2 ^ 63 - 1 \<and>
   0 \<le> sint (retryDelay NewClient) \<and>
   sint (retryDelay NewClient) * 2 ^ (nat (maxRetries NewClient) - 1) < 2 ^ 63 \<and>
   \<not> isl (BuildURL catnrQuery (baseURL NewClient) ''gp.php'') \<and>
   transportFails refusing \<and>
   fst (fetch NewClient (\<lambda>i. refusing) (Some Ctx) catnrQuery ''gp.php'') =
     Return (Inl (Errorf ''max retries (3) exceeded''
       (Some (Errorf ''request failed'' (Some (TransportErr ''connection refused'')))))) \<and>
   countAttempts (snd (fetch NewClient (\<lambda>i. refusing) (Some Ctx) catnrQuery ''gp.php'')) = 4 \<and>
   countRequests (snd (fetch NewClient (\<lambda>i. refusing) (Some Ctx) catnrQuery ''gp.php'')) = 4 \<and>
   map sint (waitsOf (snd (fetch NewClient (\<lambda>i. refusing) (Some Ctx) catnrQuery ''gp.php''))) =
     [1000000000, 2000000000, 4000000000] \<and>
   sum_list (map sint (waitsOf (snd (fetch NewClient (\<lambda>i. refusing) (Some Ctx) catnrQuery
                                      ''gp.php'')))) =
     7000000000"
proof -
  have c: "Some Ctx \<noteq> None" by simp
  have sd: "sint (retryDelay NewClient) = 1000000000" by (simp add: NewClient_def)
  have n: "nat (maxRetries NewClient) = 3" "maxRetries NewClient = 3"
    by (simp_all add: NewClient_def)
  have m: "0 \<le> maxRetries NewClient" and mb: "maxRetries NewClient < 2 ^ 63 - 1"
    by (simp_all add: n)
  have d: "0 \<le> sint (retryDelay NewClient)" by (simp add: sd)
  have fit: "sint (retryDelay NewClient) * 2 ^ (nat (maxRetries NewClient) - 1) < 2 ^ 63"
    by (simp add: sd n)
  have u: "\<not> isl (BuildURL catnrQuery (baseURL NewClient) ''gp.php'')" by (simp add: catnr_url)
  have t: "\<forall>i \<le> nat (maxRetries NewClient). transportFails ((\<lambda>i. refusing) i)"
    by (simp add: transportFails_def refusing_def)
  have t': "transportFails refusing" by (simp add: transportFails_def refusing_def)
  have s: "showInt 3 = ''3''" by (simp add: showInt_def digits.simps)
  have l: "[0..<3] = [0, Suc 0, 2]" by code_simp
  have p: "projl (doResult refusing) = ''connection refused''" by (simp add: refusing_def)
  from C5_retry_budget [OF c m mb d fit u t] c m mb d fit u t' show ?thesis
    unfolding n s sd by (simp add: l p)
qed

text \<open>
  Without the bound the claim fails: with \<open>maxRetries = 2\<close> and \<open>retryDelay = 2^62\<close>
  nanoseconds the doubling overflows, and the second timer is set to \<open>-2^63\<close>, not to
  \<open>2d\<close>.
\<close>

theorem C5_overflow_counterexample:
  "Some Ctx \<noteq> None \<and> 0 \<le> maxRetries (WithRetries 2 (2 ^ 62) NewClient) \<and>
   transportFails refusing \<and>
   sint (retryDelay (WithRetries 2 (2 ^ 62) NewClient)) = 4611686018427387904 \<and>
   map sint (waitsOf (snd (fetch (WithRetries 2 (2 ^ 62) NewClient) (\<lambda>i. refusing) (Some Ctx)
                              catnrQuery ''gp.php''))) =
     [4611686018427387904, - 9223372036854775808] \<and>
   - 9223372036854775808 \<noteq> 2 * (4611686018427387904 :: int)"
  by code_simp

text \<open>
  Claim C6. When the iterations before the \<open>k\<close>-th have failed with retryable errors and the
  context is found done at the top of iteration \<open>k\<close>, or during the wait of iteration
  \<open>k\<close>, \<open>fetch\<close> returns at once with an error wrapping the context's error, having
  performed the \<open>k\<close> attempts of the iterations before and none after, whatever the retry
  budget \<open>maxRetries \<ge> k\<close> still allows.
\<close>

theorem C6_cancellation:
  assumes ctx: "ctx \<noteq> None" and k: "int k \<le> maxRetries c"
    and before: "\<forall>i<k. retryableFailure c env ctx q endpoint i"
  shows "(ctxErrLoop (env k) = Some e \<longrightarrow>
            fetch c env ctx q endpoint =
              (Return (Inl (Errorf ''context cancelled'' (Some (ContextErr e)))),
               eventsBefore c env ctx q endpoint k)) \<and>
         (ctxErrLoop (env k) = None \<and> k > 0 \<and> waitDone (env k) = Some e \<longrightarrow>
            fetch c env ctx q endpoint =
              (Return (Inl (Errorf ''context cancelled during retry'' (Some (ContextErr e)))),
               eventsBefore c env ctx q endpoint k @ [Wait (retryDelay c * 2 ^ (k - 1))])) \<and>
         countAttempts (eventsBefore c env ctx q endpoint k) = k \<and>
         countAttempts (eventsBefore c env ctx q endpoint k @ [Wait (retryDelay c * 2 ^ (k - 1))]) = k"
proof -
  from ctx obtain x where x: "ctx = Some x" by auto
  have k1: "int k \<le> maxRetries c + 1" using k by simp
  note reach = fetch_reaches [OF k1 before [unfolded x]]
  have 1: "ctxErrLoop (env k) = Some e \<longrightarrow>
            fetch c env ctx q endpoint =
              (Return (Inl (Errorf ''context cancelled'' (Some (ContextErr e)))),
               eventsBefore c env ctx q endpoint k)"
    unfolding x reach using k by (subst fetch_loop.simps) simp
  have 2: "ctxErrLoop (env k) = None \<and> k > 0 \<and> waitDone (env k) = Some e \<longrightarrow>
            fetch c env ctx q endpoint =
              (Return (Inl (Errorf ''context cancelled during retry'' (Some (ContextErr e)))),
               eventsBefore c env ctx q endpoint k @ [Wait (retryDelay c * 2 ^ (k - 1))])"
    unfolding x reach using k by (subst fetch_loop.simps) (simp add: delayAt_def)
  show ?thesis
    using 1 2 by (simp add: countAttempts_eventsBefore countAttempts_append) (simp add: countAttempts_def)
qed

theorem C6_cancellation_witness:
  "Some Ctx \<noteq> None \<and> int 2 \<le> maxRetries NewClient \<and>
   ctxErrLoop (cancelledAt 2 2) = Some Canceled \<and>
   fetch NewClient (cancelledAt 2) (Some Ctx) catnrQuery ''gp.php'' =
     (Return (Inl (Errorf ''context cancelled'' (Some (ContextErr Canceled)))),
      [Attempt,
       HttpDo \<lparr>reqURL = ''https://celestrak.org/NORAD/elements/gp.php?CATNR=25544&FORMAT=JSON'',
               reqUserAgent = Some ''celestrak-go/0.0.1'', reqIfNoneMatch = None\<rparr>,
       Wait 1000000000, Attempt,
       HttpDo \<lparr>reqURL = ''https://celestrak.org/NORAD/elements/gp.php?CATNR=25544&FORMAT=JSON'',
               reqUserAgent = Some ''celestrak-go/0.0.1'', reqIfNoneMatch = None\<rparr>]) \<and>
   int 1 \<le> maxRetries NewClient \<and>
   ctxErrLoop (cancelledInWait 1 1) = None \<and>
   waitDone (cancelledInWait 1 1) = Some DeadlineExceeded \<and>
   fetch NewClient (cancelledInWait 1) (Some Ctx) catnrQuery ''gp.php'' =
     (Return (Inl (Errorf ''context cancelled during retry'' (Some (ContextErr DeadlineExceeded)))),
      [Attempt,
       HttpDo \<lparr>reqURL = ''https://celestrak.org/NORAD/elements/gp.php?CATNR=25544&FORMAT=JSON'',
               reqUserAgent = Some ''celestrak-go/0.0.1'', reqIfNoneMatch = None\<rparr>,
       Wait 1000000000])"
proof -
  have c: "Some Ctx \<noteq> None" by simp
  have k2: "int 2 \<le> maxRetries NewClient" and k1: "int 1 \<le> maxRetries NewClient"
    by (simp_all add: NewClient_def)
  have a0: "retryableFailure NewClient (cancelledAt 2) (Some Ctx) catnrQuery ''gp.php'' 0"
    by code_simp
  have a1: "retryableFailure NewClient (cancelledAt 2) (Some Ctx) catnrQuery ''gp.php'' (Suc 0)"
    by code_simp
  have b0: "retryableFailure NewClient (cancelledInWait 1) (Some Ctx) catnrQuery ''gp.php'' 0"
    by code_simp
  have f2: "\<forall>i<2. retryableFailure NewClient (cancelledAt 2) (Some Ctx) catnrQuery ''gp.php'' i"
  proof (intro allI impI)
    fix i :: nat
    assume "i < 2"
    then have "i = 0 \<or> i = Suc 0" by arith
    with a0 a1
    show "retryableFailure NewClient (cancelledAt 2) (Some Ctx) catnrQuery ''gp.php'' i" by auto
  qed
  have f1: "\<forall>i<1. retryableFailure NewClient (cancelledInWait 1) (Some Ctx) catnrQuery ''gp.php'' i"
    using b0 by simp
  have e2: "ctxErrLoop (cancelledAt 2 2) = Some Canceled"
    by (simp add: cancelledAt_def refusing_def)
  have e1: "ctxErrLoop (cancelledInWait 1 1) = None \<and> 0 < (1::nat) \<and>
            waitDone (cancelledInWait 1 1) = Some DeadlineExceeded"
    by (simp add: cancelledInWait_def refusing_def)
  have d: "retryDelay NewClient * 2 ^ (1 - 1) = 1000000000" by (simp add: NewClient_def)
  have v2: "eventsBefore NewClient (cancelledAt 2) (Some Ctx) catnrQuery ''gp.php'' 2 =
      [Attempt,
       HttpDo \<lparr>reqURL = ''https://celestrak.org/NORAD/elements/gp.php?CATNR=25544&FORMAT=JSON'',
               reqUserAgent = Some ''celestrak-go/0.0.1'', reqIfNoneMatch = None\<rparr>,
       Wait 1000000000, Attempt,
       HttpDo \<lparr>reqURL = ''https://celestrak.org/NORAD/elements/gp.php?CATNR=25544&FORMAT=JSON'',
               reqUserAgent = Some ''celestrak-go/0.0.1'', reqIfNoneMatch = None\<rparr>]"
    by code_simp
  have v1: "eventsBefore NewClient (cancelledInWait 1) (Some Ctx) catnrQuery ''gp.php'' 1 =
      [Attempt,
       HttpDo \<lparr>reqURL = ''https://celestrak.org/NORAD/elements/gp.php?CATNR=25544&FORMAT=JSON'',
               reqUserAgent = Some ''celestrak-go/0.0.1'', reqIfNoneMatch = None\<rparr>]"
    by code_simp
  from C6_cancellation [OF c k2 f2, of Canceled] e2
  have 2: "fetch NewClient (cancelledAt 2) (Some Ctx) catnrQuery ''gp.php'' =
     (Return (Inl (Errorf ''context cancelled'' (Some (ContextErr Canceled)))),
      eventsBefore NewClient (cancelledAt 2) (Some Ctx) catnrQuery ''gp.php'' 2)"
    and 3: "countAttempts (eventsBefore NewClient (cancelledAt 2) (Some Ctx) catnrQuery ''gp.php'' 2) = 2"
    by blast+
  from C6_cancellation [OF c k1 f1, of DeadlineExceeded] e1
  have 1: "fetch NewClient (cancelledInWait 1) (Some Ctx) catnrQuery ''gp.php'' =
     (Return (Inl (Errorf ''context cancelled during retry'' (Some (ContextErr DeadlineExceeded)))),
      eventsBefore NewClient (cancelledInWait 1) (Some Ctx) catnrQuery ''gp.php'' 1 @
        [Wait 1000000000])"
    unfolding d by blast
  from c k2 k1 e2 e1 1 [unfolded v1] 2 [unfolded v2] show ?thesis by simp
qed

section \<open>Where the code departs from its documentation\<close>

text \<open>
  Claim C1 says that a QueryError of the query builder is never retried. In the code
  \<open>fetchOnce\<close> wraps the builder's error with \<open>fmt.Errorf("build URL: %w", err)\<close>, the
  type assertion of \<open>IsQueryError\<close> does not see through the wrapper, and \<open>shouldRetry\<close>
  accepts it: for a query without selector the default client runs all four attempts, waiting
  1, 2 and 4 seconds, and returns "max retries (3) exceeded".
\<close>

theorem C1_builder_error_is_retried:
  "BuildURL emptyQuery (baseURL NewClient) ''gp.php'' =
     Inl (QueryError ''missing selector (set one of CATNR/INTDES/GROUP/NAME/SPECIAL)'') \<and>
   fetchOnce NewClient refusing (Some Ctx) emptyQuery ''gp.php'' =
     (Inl (Errorf ''build URL''
        (Some (QueryError ''missing selector (set one of CATNR/INTDES/GROUP/NAME/SPECIAL)''))), []) \<and>
   shouldRetry (Some (Errorf ''build URL''
        (Some (QueryError ''missing selector (set one of CATNR/INTDES/GROUP/NAME/SPECIAL)'')))) \<and>
   fetch NewClient (\<lambda>i. refusing) (Some Ctx) emptyQuery ''gp.php'' =
     (Return (Inl (Errorf ''max retries (3) exceeded''
        (Some (Errorf ''build URL''
           (Some (QueryError ''missing selector (set one of CATNR/INTDES/GROUP/NAME/SPECIAL)'')))))),
      [Attempt, Wait 1000000000, Attempt, Wait 2000000000, Attempt, Wait 4000000000, Attempt])"
  by code_simp

text \<open>
  Claim C2 says that \<open>fetch\<close> with a nil context returns the QueryError
  "context must be non-nil". That check is in \<open>fetchOnce\<close>; \<open>fetch\<close> calls
  \<open>ctx.Err()\<close> on the nil interface before it, at the top of its first iteration, and panics.
\<close>

theorem C2_nil_context_panics:
  "fetch NewClient env None q endpoint = (Panic, []) \<and>
   FetchGP NewClient env None q = (Panic, []) \<and>
   FetchGPFirst NewClient env None q = (Panic, []) \<and>
   FetchGPLast NewClient env None q = (Panic, []) \<and>
   FetchTable NewClient env None q = (Panic, []) \<and>
   fetchOnce NewClient e None q endpoint = (Inl (QueryError ''context must be non-nil''), [])"
  by (simp add: FetchGP_def FetchGPFirst_def FetchGPLast_def FetchTable_def fetch_def
        fetch_loop.simps fetchOnce_def NewClient_def)

end
